theory Spec2Isabelle
  imports Main "HOL-Library.List_Lexorder" "HOL-Library.AList"
begin

section \<open>JavaScript strings\<close>

text \<open>
  A JavaScript string is a sequence of UTF-16 code units. The relational operators on
  strings compare code units lexicographically, a proper prefix being the smaller string;
  this is the order of \<^theory_text>\<open>List_Lexorder\<close> on lists of naturals.
\<close>

type_synonym js_string = "nat list"

definition js :: "string \<Rightarrow> js_string" where
  "js s = map of_char s"

definition js_gt :: "js_string \<Rightarrow> js_string \<Rightarrow> bool" where
  "js_gt a b = (b < a)"

text \<open>Truthiness of a value that is a string or \<open>null\<close>: \<open>null\<close> and \<open>''\<close> are falsy.\<close>

fun truthy :: "js_string option \<Rightarrow> bool" where
  "truthy None = False"
| "truthy (Some []) = False"
| "truthy (Some (c # cs)) = True"

text \<open>A template literal prints \<open>null\<close> as the four characters \<open>null\<close>.\<close>

fun template_str :: "js_string option \<Rightarrow> js_string" where
  "template_str None = js ''null''"
| "template_str (Some r) = r"

text \<open>
  \<open>peerConns\<close>, \<open>iceQueues\<close> and \<open>audioAnalysers\<close> are plain objects (\<open>{}\<close>), so a
  property read also finds what \<open>Object.prototype\<close> provides. Every one of these inherited
  values is truthy (a function, or for \<open>__proto__\<close> the prototype object itself).
\<close>

definition object_proto_keys :: "js_string list" where
  "object_proto_keys = map js
     [''constructor'', ''__defineGetter__'', ''__defineSetter__'', ''hasOwnProperty'',
      ''__lookupGetter__'', ''__lookupSetter__'', ''isPrototypeOf'', ''propertyIsEnumerable'',
      ''toString'', ''valueOf'', ''__proto__'', ''toLocaleString'']"

definition inherited :: "js_string \<Rightarrow> bool" where
  "inherited k = (k \<in> set object_proto_keys)"

text \<open>
  Assigning to a property of a plain object: under the key \<open>__proto__\<close> the assignment
  sets the prototype and creates no own property, so nothing that reads or enumerates
  own properties sees it.
\<close>

definition obj_assign :: "js_string \<Rightarrow> 'v \<Rightarrow> (js_string \<times> 'v) list \<Rightarrow> (js_string \<times> 'v) list" where
  "obj_assign k v m = (if k = js ''__proto__'' then m else AList.update k v m)"

section \<open>video.js: state\<close>

datatype track_kind = AudioTrack | VideoTrack

type_synonym track = "track_kind \<times> nat"
type_synonym stream = "track list"
type_synonym candidate = nat

datatype sdp_type = OfferT | AnswerT
type_synonym sdp = "sdp_type \<times> js_string"

datatype conn_state = CsNew | CsConnecting | CsConnected | CsDisconnected | CsFailed | CsClosed

datatype sig_state =
  SigStable | SigHaveLocalOffer | SigHaveRemoteOffer | SigHaveLocalPranswer
| SigHaveRemotePranswer | SigClosed

text \<open>
  The methods video.js invokes on an \<open>RTCPeerConnection\<close>; \<open>CreateOffer True\<close> is
  \<open>createOffer({ iceRestart: true })\<close>.
\<close>

datatype pc_call =
  AddTrack track
| CreateOffer bool
| CreateAnswer
| SetLocalDescription sdp
| SetRemoteDescription sdp
| AddIceCandidate candidate
| RestartIce
| Close

text \<open>
  An \<open>RTCPeerConnection\<close> as far as video.js reads it (\<open>signalingState\<close>,
  \<open>remoteDescription\<close>, \<open>currentRemoteDescription\<close>) and drives it (the calls, in
  order). The browser owns the object; the three attributes change as the WebRTC API
  documents for the calls made here.
\<close>

record peer_conn =
  signalingState :: sig_state
  remoteDescription :: "sdp option"
  currentRemoteDescription :: "sdp option"
  calls :: "pc_call list"

text \<open>
  The descriptions as the WebRTC API applies them: a local offer leaves the connection in
  \<open>have-local-offer\<close>; a remote offer is the pending remote description (so
  \<open>remoteDescription\<close> is set and \<open>currentRemoteDescription\<close> is not yet); an answer, local
  or remote, completes the negotiation.
\<close>

definition local_applied :: "sdp \<Rightarrow> peer_conn \<Rightarrow> peer_conn" where
  "local_applied d p =
     (case fst d of
        OfferT \<Rightarrow> p\<lparr>signalingState := SigHaveLocalOffer\<rparr>
      | AnswerT \<Rightarrow> p\<lparr>signalingState := SigStable,
                     currentRemoteDescription := remoteDescription p\<rparr>)"

definition remote_applied :: "sdp \<Rightarrow> peer_conn \<Rightarrow> peer_conn" where
  "remote_applied d p =
     (case fst d of
        OfferT \<Rightarrow> p\<lparr>signalingState := SigHaveRemoteOffer, remoteDescription := Some d\<rparr>
      | AnswerT \<Rightarrow> p\<lparr>signalingState := SigStable, remoteDescription := Some d,
                     currentRemoteDescription := Some d\<rparr>)"

definition new_pc :: peer_conn where
  "new_pc = \<lparr>signalingState = SigStable, remoteDescription = None,
             currentRemoteDescription = None, calls = []\<rparr>"

datatype db_event = ChildAdded | ChildRemoved | ValueEvent

datatype db_value = SdpVal sdp | ParticipantVal js_string | IceVal candidate

datatype db_op =
  DbSet js_string db_value
| DbPush js_string db_value
| DbRemove js_string
| DbOnDisconnectRemove js_string
| DbOn js_string db_event
| DbOff js_string

datatype alert = LogInFirst | MediaError js_string

datatype js_error = TypeError | InvalidStateError

text \<open>
  What the closures created by one run of \<open>connectToPeer\<close> share: the peer's name, the
  connection object, the role and the signaling path of the pair.
\<close>

record link =
  lk_peer :: js_string
  lk_pc :: nat
  lk_initiator :: bool
  lk_path :: js_string

text \<open>
  The listeners of the answer and of the offer are \<open>async\<close> functions: at each \<open>await\<close>
  the handler stops and other events are dispatched until the awaited promise settles. A
  handler stopped at an \<open>await\<close> is named by the call it waits for: the initiator's
  \<open>setRemoteDescription\<close>; the responder's \<open>setRemoteDescription\<close>, \<open>createAnswer\<close>,
  \<open>setLocalDescription\<close> and the write of the answer; and, in \<open>flushIceQueue\<close>, the
  \<open>safeAddIce\<close> of one element of the array being iterated (the array object and the index
  the iteration goes on with).
\<close>

datatype awaiting =
  AwaitSetRemoteAnswer link sdp
| AwaitSetRemoteOffer link sdp
| AwaitCreateAnswer link
| AwaitSetLocalAnswer link sdp
| AwaitAnswerWritten link
| AwaitAddIce link nat nat

text \<open>
  The globals of video.js, the globals of app.js it reads (\<open>username\<close>, \<open>currentRoom\<close>,
  \<open>db\<close>), and what it does to the outside: the operations on the realtime database, the
  alerts, the tracks stopped, the audio monitors released, the errors thrown out of a
  handler. \<open>pcs\<close> is the store of connection objects and \<open>arrays\<close> the store of candidate
  arrays, a reference being the index of creation: closures and stopped handlers keep a
  reference after \<open>peerConns\<close> or \<open>iceQueues\<close> has dropped or replaced it. \<open>stopped\<close>
  lists the handlers stopped at an \<open>await\<close>. \<open>tiles\<close> lists the ids of the tiles of the video
  grid without their common prefix \<open>tile-\<close>. Object maps are association lists in
  insertion order, the order in which JavaScript enumerates keys that are not array
  indices.
\<close>

record call_state =
  username :: js_string
  currentRoom :: js_string
  dbReady :: bool
  localStream :: "stream option"
  screenStream :: "stream option"
  pcs :: "peer_conn list"
  peerConns :: "(js_string \<times> nat) list"
  iceQueues :: "(js_string \<times> nat) list"
  arrays :: "candidate list list"
  callRoom :: "js_string option"
  participantsRef :: "js_string option"
  isMuted :: bool
  isCamOff :: bool
  isSharing :: bool
  audioAnalysers :: "(js_string \<times> nat) list"
  tiles :: "js_string list"
  callCount :: nat
  callRoomLabel :: js_string
  callUiShown :: bool
  stoppedTracks :: "track list"
  releasedAnalysers :: "nat list"
  db_log :: "db_op list"
  alerts :: "alert list"
  uncaught :: "js_error list"
  stopped :: "awaiting list"

definition DB_ROOT :: js_string where
  "DB_ROOT = js ''cs1''"

definition participants_path :: "js_string \<Rightarrow> js_string" where
  "participants_path room = DB_ROOT @ js ''/calls/'' @ room @ js ''/participants''"

definition participant_path :: "js_string \<Rightarrow> js_string \<Rightarrow> js_string" where
  "participant_path room user = participants_path room @ js ''/'' @ user"

definition conn_path :: "js_string \<Rightarrow> js_string \<Rightarrow> js_string \<Rightarrow> js_string" where
  "conn_path room initiator responder =
     DB_ROOT @ js ''/calls/'' @ room @ js ''/connections/'' @ initiator @ js ''___'' @ responder"

definition throw :: "js_error \<Rightarrow> call_state \<Rightarrow> call_state" where
  "throw e s = s\<lparr>uncaught := uncaught s @ [e]\<rparr>"

definition db_do :: "db_op list \<Rightarrow> call_state \<Rightarrow> call_state" where
  "db_do ops s = s\<lparr>db_log := db_log s @ ops\<rparr>"

definition pc_upd :: "nat \<Rightarrow> (peer_conn \<Rightarrow> peer_conn) \<Rightarrow> call_state \<Rightarrow> call_state" where
  "pc_upd r f s = s\<lparr>pcs := (pcs s)[r := f (pcs s ! r)]\<rparr>"

definition pc_call :: "nat \<Rightarrow> pc_call list \<Rightarrow> call_state \<Rightarrow> call_state" where
  "pc_call r cs s = pc_upd r (\<lambda>p. p\<lparr>calls := calls p @ cs\<rparr>) s"

section \<open>video.js: tiles\<close>

definition updateCount :: "call_state \<Rightarrow> call_state" where
  "updateCount s = s\<lparr>callCount := length (tiles s)\<rparr>"

definition addVideoTile :: "js_string \<Rightarrow> call_state \<Rightarrow> call_state" where
  "addVideoTile i s =
     (if i \<in> set (tiles s) then s else updateCount (s\<lparr>tiles := tiles s @ [i]\<rparr>))"

definition addPeerTile :: "js_string \<Rightarrow> call_state \<Rightarrow> call_state" where
  "addPeerTile peer s =
     (if peer \<in> set (tiles s) then s else updateCount (s\<lparr>tiles := tiles s @ [peer]\<rparr>))"

section \<open>video.js: removePeer and leaveCall\<close>

text \<open>
  \<open>pc.close()\<close> puts the connection in signaling state \<open>closed\<close>. When \<open>peerConns[peer]\<close>
  is an inherited property, the value is truthy and has no \<open>close\<close> method: the call
  throws and nothing after it runs. An inherited \<open>audioAnalysers[peer]\<close> is truthy too,
  but what is done with it changes nothing (the failing \<open>ctx.close()\<close> is caught).
\<close>

definition release_analyser :: "js_string \<Rightarrow> call_state \<Rightarrow> call_state" where
  "release_analyser peer s =
     (case map_of (audioAnalysers s) peer of
        None \<Rightarrow> s
      | Some a \<Rightarrow> s\<lparr>releasedAnalysers := releasedAnalysers s @ [a],
                     audioAnalysers := AList.delete peer (audioAnalysers s)\<rparr>)"

definition remove_rest :: "js_string \<Rightarrow> call_state \<Rightarrow> call_state" where
  "remove_rest peer s =
     (let s1 = s\<lparr>iceQueues := AList.delete peer (iceQueues s)\<rparr>;
          s2 = release_analyser peer s1
      in updateCount (s2\<lparr>tiles := remove1 peer (tiles s2)\<rparr>))"

definition removePeer :: "js_string \<Rightarrow> call_state \<Rightarrow> call_state" where
  "removePeer peer s =
     (case map_of (peerConns s) peer of
        Some r \<Rightarrow>
          remove_rest peer
            ((pc_upd r (\<lambda>p. p\<lparr>signalingState := SigClosed, calls := calls p @ [Close]\<rparr>) s)
               \<lparr>peerConns := AList.delete peer (peerConns s)\<rparr>)
      | None \<Rightarrow> if inherited peer then throw TypeError s else remove_rest peer s)"

definition stream_tracks :: "stream option \<Rightarrow> track list" where
  "stream_tracks st = (case st of None \<Rightarrow> [] | Some ts \<Rightarrow> ts)"

definition leaveCall :: "call_state \<Rightarrow> call_state" where
  "leaveCall s =
     (if truthy (callRoom s) then
        let s1 = fold removePeer (map fst (peerConns s)) s;
            s2 = s1\<lparr>stoppedTracks := stoppedTracks s1 @ stream_tracks (localStream s1)
                                        @ stream_tracks (screenStream s1),
                    localStream := None, screenStream := None\<rparr>;
            s3 = db_do [DbRemove (participant_path (template_str (callRoom s2)) (username s2))] s2;
            s4 = db_do (case participantsRef s3 of None \<Rightarrow> [] | Some p \<Rightarrow> [DbOff p]) s3
        in s4\<lparr>participantsRef := None, callRoom := None, tiles := [], callUiShown := False\<rparr>
      else s)"

section \<open>video.js: startJoin\<close>

text \<open>
  \<open>getUserMedia\<close> is the browser's: its outcome is an argument, \<open>Inl\<close> the message of the
  error it rejects with, \<open>Inr\<close> the captured stream.
\<close>

definition local_tile :: js_string where
  "local_tile = js ''__local__''"

definition startJoin :: "js_string + stream \<Rightarrow> call_state \<Rightarrow> call_state" where
  "startJoin media s =
     (if dbReady s \<and> username s \<noteq> [] then
        (case media of
           Inl msg \<Rightarrow> s\<lparr>alerts := alerts s @ [MediaError msg]\<rparr>
         | Inr st \<Rightarrow>
             let room = currentRoom s;
                 s1 = s\<lparr>localStream := Some st, callRoom := Some room,
                        callRoomLabel := js ''#'' @ room, callUiShown := True,
                        isMuted := False, isCamOff := False, isSharing := False\<rparr>;
                 s2 = addVideoTile local_tile s1;
                 s3 = db_do [DbSet (participant_path room (username s2)) (ParticipantVal (username s2)),
                             DbOnDisconnectRemove (participant_path room (username s2)),
                             DbOn (participants_path room) ChildAdded,
                             DbOn (participants_path room) ChildRemoved] s2
             in s3\<lparr>participantsRef := Some (participants_path room)\<rparr>)
      else s\<lparr>alerts := alerts s @ [LogInFirst]\<rparr>)"

section \<open>video.js: connectToPeer\<close>

definition mk_link :: "call_state \<Rightarrow> js_string \<Rightarrow> js_string \<Rightarrow> bool \<Rightarrow> link" where
  "mk_link s peer room iAmInitiator =
     \<lparr>lk_peer = peer, lk_pc = length (pcs s), lk_initiator = iAmInitiator,
      lk_path = conn_path room (if iAmInitiator then username s else peer)
                               (if iAmInitiator then peer else username s)\<rparr>"

definition myIceKey :: "link \<Rightarrow> js_string" where
  "myIceKey lk = (if lk_initiator lk then js ''initiatorIce'' else js ''responderIce'')"

definition theirIceKey :: "link \<Rightarrow> js_string" where
  "theirIceKey lk = (if lk_initiator lk then js ''responderIce'' else js ''initiatorIce'')"

definition offer_path :: "link \<Rightarrow> js_string" where
  "offer_path lk = lk_path lk @ js ''/offer''"

definition answer_path :: "link \<Rightarrow> js_string" where
  "answer_path lk = lk_path lk @ js ''/answer''"

text \<open>The test \<open>if (peerConns[peer])\<close>: an own entry or an inherited property.\<close>

definition has_conn :: "call_state \<Rightarrow> js_string \<Rightarrow> bool" where
  "has_conn s peer = (inherited peer \<or> map_of (peerConns s) peer \<noteq> None)"

text \<open>
  \<open>setLocalDescription\<close> called and fulfilled in one step, as \<open>connectToPeer\<close> and the
  ICE restart have it here: the call is recorded and the description applied.
\<close>

definition set_local :: "sdp \<Rightarrow> peer_conn \<Rightarrow> peer_conn" where
  "set_local d p =
     (case fst d of
        OfferT \<Rightarrow> p\<lparr>signalingState := SigHaveLocalOffer, calls := calls p @ [SetLocalDescription d]\<rparr>
      | AnswerT \<Rightarrow> p\<lparr>signalingState := SigStable,
                     currentRemoteDescription := remoteDescription p,
                     calls := calls p @ [SetLocalDescription d]\<rparr>)"

text \<open>
  \<open>connectToPeer\<close>, with the offer that \<open>createOffer\<close> resolves to as an argument (read
  by the initiator only). With no local stream, \<open>localStream.getTracks()\<close> throws after
  the connection has been registered and its tile added. The initiator's three awaits
  are run through in the same step, its calls taken to succeed; the listener of the
  answer is attached after them.
\<close>

definition connectToPeer ::
  "js_string \<Rightarrow> js_string \<Rightarrow> bool \<Rightarrow> sdp \<Rightarrow> call_state \<Rightarrow> call_state" where
  "connectToPeer peer room iAmInitiator offer s =
     (if has_conn s peer then s
      else
        let lk = mk_link s peer room iAmInitiator;
            r = lk_pc lk;
            s1 = addPeerTile peer
                   (s\<lparr>pcs := pcs s @ [new_pc],
                      peerConns := AList.update peer r (peerConns s),
                      arrays := arrays s @ [[]],
                      iceQueues := AList.update peer (length (arrays s)) (iceQueues s)\<rparr>)
        in case localStream s1 of
             None \<Rightarrow> throw TypeError s1
           | Some st \<Rightarrow>
               let s2 = pc_call r (map AddTrack st) s1;
                   s3 = db_do [DbOn (lk_path lk @ js ''/'' @ theirIceKey lk) ChildAdded] s2
               in if iAmInitiator then
                    db_do [DbSet (offer_path lk) (SdpVal offer), DbOn (answer_path lk) ValueEvent]
                      (pc_upd r (set_local offer) (pc_call r [CreateOffer False] s3))
                  else db_do [DbOn (offer_path lk) ValueEvent] s3)"

section \<open>video.js: the roster listeners\<close>

definition roster_child_added :: "js_string \<Rightarrow> sdp \<Rightarrow> call_state \<Rightarrow> call_state" where
  "roster_child_added peer offer s =
     (if peer = username s \<or> has_conn s peer then s
      else connectToPeer peer (template_str (callRoom s)) (js_gt (username s) peer) offer s)"

definition roster_child_removed :: "js_string \<Rightarrow> call_state \<Rightarrow> call_state" where
  "roster_child_removed peer s = removePeer peer s"

section \<open>video.js: the listeners of one link\<close>

definition onicecandidate :: "link \<Rightarrow> candidate option \<Rightarrow> call_state \<Rightarrow> call_state" where
  "onicecandidate lk cand s =
     (case cand of
        None \<Rightarrow> s
      | Some c \<Rightarrow> db_do [DbPush (lk_path lk @ js ''/'' @ myIceKey lk) (IceVal c)] s)"

text \<open>\<open>safeAddIce\<close> swallows whatever \<open>addIceCandidate\<close> rejects with.\<close>

definition safeAddIce :: "nat \<Rightarrow> candidate \<Rightarrow> call_state \<Rightarrow> call_state" where
  "safeAddIce r c s = pc_call r [AddIceCandidate c] s"

text \<open>
  The listener of the peer's candidates; \<open>None\<close> is a falsy \<open>snap.val()\<close>. The queue is
  looked up by the peer's name when the candidate arrives, and the candidate is pushed
  onto the array found there: without an own entry, \<open>iceQueues[peer].push\<close> throws.
  Nothing follows the \<open>await\<close> of the direct branch.
\<close>

definition ice_child_added :: "link \<Rightarrow> candidate option \<Rightarrow> call_state \<Rightarrow> call_state" where
  "ice_child_added lk val s =
     (case val of
        None \<Rightarrow> s
      | Some c \<Rightarrow>
          if remoteDescription (pcs s ! lk_pc lk) \<noteq> None then safeAddIce (lk_pc lk) c s
          else (case map_of (iceQueues s) (lk_peer lk) of
                  Some a \<Rightarrow> s\<lparr>arrays := (arrays s)[a := arrays s ! a @ [c]]\<rparr>
                | None \<Rightarrow> throw TypeError s))"

text \<open>
  A handler stops at an \<open>await\<close>. A method of a connection that has been closed rejects
  at once with an \<open>InvalidStateError\<close>; on an open connection the call is made and the
  handler waits for it.
\<close>

definition await :: "awaiting \<Rightarrow> call_state \<Rightarrow> call_state" where
  "await t s = s\<lparr>stopped := stopped s @ [t]\<rparr>"

definition pc_closed :: "call_state \<Rightarrow> nat \<Rightarrow> bool" where
  "pc_closed s r = (signalingState (pcs s ! r) = SigClosed)"

definition call_and_await :: "nat \<Rightarrow> pc_call \<Rightarrow> awaiting \<Rightarrow> call_state \<Rightarrow> call_state" where
  "call_and_await r c t s =
     (if pc_closed s r then throw InvalidStateError (pc_call r [c] s)
      else await t (pc_call r [c] s))"

text \<open>
  \<open>flushIceQueue\<close>. The \<open>for ... of\<close> loop iterates the array that \<open>iceQueues[peer]\<close> holds
  when the loop starts, reading its length anew at each round, and awaits \<open>safeAddIce\<close>
  on each element. On a closed connection \<open>addIceCandidate\<close> rejects at once and
  \<open>safeAddIce\<close> swallows it, so the loop runs to its end before any other event. The last
  statement puts a new empty array under the peer's name. An inherited \<open>iceQueues[peer]\<close>
  is truthy and not iterable.
\<close>

definition flush_end :: "link \<Rightarrow> call_state \<Rightarrow> call_state" where
  "flush_end lk s =
     s\<lparr>arrays := arrays s @ [[]],
       iceQueues := obj_assign (lk_peer lk) (length (arrays s)) (iceQueues s)\<rparr>"

definition flush_next :: "link \<Rightarrow> nat \<Rightarrow> nat \<Rightarrow> call_state \<Rightarrow> call_state" where
  "flush_next lk a i s =
     (if i < length (arrays s ! a) then
        (if pc_closed s (lk_pc lk)
         then flush_end lk (fold (safeAddIce (lk_pc lk)) (drop i (arrays s ! a)) s)
         else await (AwaitAddIce lk a (Suc i)) (safeAddIce (lk_pc lk) (arrays s ! a ! i) s))
      else flush_end lk s)"

definition flushIceQueue :: "link \<Rightarrow> call_state \<Rightarrow> call_state" where
  "flushIceQueue lk s =
     (case map_of (iceQueues s) (lk_peer lk) of
        Some a \<Rightarrow> flush_next lk a 0 s
      | None \<Rightarrow> if inherited (lk_peer lk) then throw TypeError s else flush_end lk s)"

text \<open>
  The initiator's listener of the answer, up to its first \<open>await\<close>: the call of
  \<open>setRemoteDescription\<close>.
\<close>

definition on_answer_value :: "link \<Rightarrow> sdp option \<Rightarrow> call_state \<Rightarrow> call_state" where
  "on_answer_value lk val s =
     (case val of
        None \<Rightarrow> s
      | Some d \<Rightarrow>
          if currentRemoteDescription (pcs s ! lk_pc lk) \<noteq> None then s
          else call_and_await (lk_pc lk) (SetRemoteDescription d) (AwaitSetRemoteAnswer lk d) s)"

text \<open>The responder's listener of the offer, up to its first \<open>await\<close>.\<close>

definition on_offer_value :: "link \<Rightarrow> sdp option \<Rightarrow> call_state \<Rightarrow> call_state" where
  "on_offer_value lk val s =
     (case val of
        None \<Rightarrow> s
      | Some d \<Rightarrow>
          if currentRemoteDescription (pcs s ! lk_pc lk) \<noteq> None then s
          else call_and_await (lk_pc lk) (SetRemoteDescription d) (AwaitSetRemoteOffer lk d) s)"

text \<open>
  What a handler does when the promise it waits for is fulfilled, up to its next \<open>await\<close>
  or its end. The description takes effect on the connection when \<open>setRemoteDescription\<close>
  or \<open>setLocalDescription\<close> is fulfilled. \<open>ans\<close> is the answer \<open>createAnswer\<close> resolves
  to.
\<close>

fun continue :: "awaiting \<Rightarrow> sdp \<Rightarrow> call_state \<Rightarrow> call_state" where
  "continue (AwaitSetRemoteAnswer lk d) ans s =
     flushIceQueue lk (pc_upd (lk_pc lk) (remote_applied d) s)"
| "continue (AwaitSetRemoteOffer lk d) ans s =
     call_and_await (lk_pc lk) CreateAnswer (AwaitCreateAnswer lk)
       (pc_upd (lk_pc lk) (remote_applied d) s)"
| "continue (AwaitCreateAnswer lk) ans s =
     call_and_await (lk_pc lk) (SetLocalDescription ans) (AwaitSetLocalAnswer lk ans) s"
| "continue (AwaitSetLocalAnswer lk a) ans s =
     await (AwaitAnswerWritten lk)
       (db_do [DbSet (answer_path lk) (SdpVal a)] (pc_upd (lk_pc lk) (local_applied a) s))"
| "continue (AwaitAnswerWritten lk) ans s = flushIceQueue lk s"
| "continue (AwaitAddIce lk a i) ans s = flush_next lk a i s"

text \<open>
  The connection whose promise a stopped handler waits for; the write of the answer is
  the database's.
\<close>

fun awaited_pc :: "awaiting \<Rightarrow> nat option" where
  "awaited_pc (AwaitSetRemoteAnswer lk d) = Some (lk_pc lk)"
| "awaited_pc (AwaitSetRemoteOffer lk d) = Some (lk_pc lk)"
| "awaited_pc (AwaitCreateAnswer lk) = Some (lk_pc lk)"
| "awaited_pc (AwaitSetLocalAnswer lk a) = Some (lk_pc lk)"
| "awaited_pc (AwaitAnswerWritten lk) = None"
| "awaited_pc (AwaitAddIce lk a i) = Some (lk_pc lk)"

text \<open>
  The promise of the \<open>n\<close>-th stopped handler is fulfilled. The browser settles no promise
  of a connection that has been closed in the meantime: that handler never goes on.
\<close>

definition resume :: "nat \<Rightarrow> sdp \<Rightarrow> call_state \<Rightarrow> call_state" where
  "resume n ans s =
     (if n < length (stopped s) then
        (case awaited_pc (stopped s ! n) of
           Some r \<Rightarrow>
             if pc_closed s r then s
             else continue (stopped s ! n) ans (s\<lparr>stopped := take n (stopped s) @ drop (Suc n) (stopped s)\<rparr>)
         | None \<Rightarrow>
             continue (stopped s ! n) ans (s\<lparr>stopped := take n (stopped s) @ drop (Suc n) (stopped s)\<rparr>))
      else s)"

text \<open>
  \<open>watchAudioLevel\<close>: the monitor the browser builds is an argument, \<open>None\<close> when building
  it throws (caught).
\<close>

definition watchAudioLevel :: "js_string \<Rightarrow> nat option \<Rightarrow> call_state \<Rightarrow> call_state" where
  "watchAudioLevel peer an s =
     (if inherited peer \<or> map_of (audioAnalysers s) peer \<noteq> None then s
      else (case an of
              None \<Rightarrow> s
            | Some a \<Rightarrow> s\<lparr>audioAnalysers := AList.update peer a (audioAnalysers s)\<rparr>))"

text \<open>
  The ICE restart of the \<open>failed\<close> branch: \<open>restartIce\<close>, an offer created with
  \<open>iceRestart: true\<close> (the offer it resolves to is an argument), set as local description
  and written to the offer path of the link.
\<close>

definition ice_restart :: "link \<Rightarrow> sdp \<Rightarrow> call_state \<Rightarrow> call_state" where
  "ice_restart lk ofr s =
     db_do [DbSet (offer_path lk) (SdpVal ofr)]
       (pc_upd (lk_pc lk) (set_local ofr) (pc_call (lk_pc lk) [RestartIce, CreateOffer True] s))"

text \<open>
  \<open>pc.onconnectionstatechange\<close>; \<open>cs\<close> is \<open>pc.connectionState\<close> as the handler reads it.
  \<open>updateTileConnState\<close> changes the inside of the peer's tile only.
\<close>

definition onconnectionstatechange ::
  "link \<Rightarrow> conn_state \<Rightarrow> sdp \<Rightarrow> nat option \<Rightarrow> call_state \<Rightarrow> call_state" where
  "onconnectionstatechange lk cs ofr an s =
     (let s1 = (if cs = CsConnected then watchAudioLevel (lk_peer lk) an s else s);
          s2 = (if cs = CsFailed then
                  (if lk_initiator lk \<and> signalingState (pcs s1 ! lk_pc lk) \<noteq> SigClosed
                   then ice_restart lk ofr s1 else s1)
                else s1)
      in if cs = CsClosed then removePeer (lk_peer lk) s2 else s2)"

section \<open>video.js: events\<close>

text \<open>
  Everything that drives the call module: the call button (\<open>startJoin\<close> when no call room
  is set, \<open>leaveCall\<close> otherwise), the end-call button, the two roster listeners, the
  listeners of a link, and the fulfilment of the promise a stopped handler waits for. Each
  event carries what the browser and the database supply. A listener stays attached when
  its link is removed: video.js detaches the roster listeners only.
\<close>

datatype call_event =
  CallButton "js_string + stream"
| EndCallButton
| RosterAdded js_string sdp
| RosterRemoved js_string
| IceCandidateFound link "candidate option"
| IceArrived link "candidate option"
| AnswerValue link "sdp option"
| OfferValue link "sdp option"
| Settled nat sdp
| ConnectionStateChange link conn_state sdp "nat option"

fun step :: "call_event \<Rightarrow> call_state \<Rightarrow> call_state" where
  "step (CallButton media) s = (if truthy (callRoom s) then leaveCall s else startJoin media s)"
| "step EndCallButton s = leaveCall s"
| "step (RosterAdded peer ofr) s = roster_child_added peer ofr s"
| "step (RosterRemoved peer) s = roster_child_removed peer s"
| "step (IceCandidateFound lk c) s = onicecandidate lk c s"
| "step (IceArrived lk c) s = ice_child_added lk c s"
| "step (AnswerValue lk v) s = on_answer_value lk v s"
| "step (OfferValue lk v) s = on_offer_value lk v s"
| "step (Settled n ans) s = resume n ans s"
| "step (ConnectionStateChange lk cs ofr an) s = onconnectionstatechange lk cs ofr an s"

text \<open>
  The invariant of the connection map: one entry per identity, none for the local
  identity, every entry a connection of the store with its tile in the grid, no entry
  under a name that \<open>Object.prototype\<close> provides; tile ids are unique.
\<close>

definition conn_inv :: "call_state \<Rightarrow> bool" where
  "conn_inv s =
     (distinct (map fst (peerConns s)) \<and> username s \<notin> fst ` set (peerConns s)
      \<and> distinct (tiles s)
      \<and> list_all (\<lambda>(k, r). r < length (pcs s) \<and> k \<in> set (tiles s) \<and> \<not> inherited k)
           (peerConns s))"

section \<open>video.js: observations\<close>

text \<open>The session descriptions written to the database by a list of operations.\<close>

fun sdp_writes :: "db_op list \<Rightarrow> (js_string \<times> sdp) list" where
  "sdp_writes [] = []"
| "sdp_writes (DbSet q (SdpVal d) # ops) = (q, d) # sdp_writes ops"
| "sdp_writes (x # ops) = sdp_writes ops"

text \<open>The database operations a handler adds when it takes \<open>s\<close> to \<open>s'\<close>.\<close>

definition new_ops :: "call_state \<Rightarrow> call_state \<Rightarrow> db_op list" where
  "new_ops s s' = drop (length (db_log s)) (db_log s')"

text \<open>
  A connection of the store on which \<open>close()\<close> has been called, and the number of
  \<open>close()\<close> calls made on all connections.
\<close>

definition is_closed :: "call_state \<Rightarrow> nat \<Rightarrow> bool" where
  "is_closed s r = (signalingState (pcs s ! r) = SigClosed \<and> Close \<in> set (calls (pcs s ! r)))"

definition close_count :: "call_state \<Rightarrow> nat" where
  "close_count s = sum_list (map (\<lambda>p. count_list (calls p) Close) (pcs s))"

text \<open>The candidates handed to \<open>addIceCandidate\<close>, in the order of the calls.\<close>

fun ice_of_calls :: "pc_call list \<Rightarrow> candidate list" where
  "ice_of_calls [] = []"
| "ice_of_calls (AddIceCandidate c # cs) = c # ice_of_calls cs"
| "ice_of_calls (x # cs) = ice_of_calls cs"

definition ice_applied :: "call_state \<Rightarrow> nat \<Rightarrow> candidate list" where
  "ice_applied s r = ice_of_calls (calls (pcs s ! r))"

definition ice_queue :: "call_state \<Rightarrow> js_string \<Rightarrow> candidate list option" where
  "ice_queue s peer = map_option (\<lambda>a. arrays s ! a) (map_of (iceQueues s) peer)"

text \<open>A run of candidates arriving at the listener of a link, one after the other.\<close>

definition arrivals :: "link \<Rightarrow> candidate list \<Rightarrow> call_state \<Rightarrow> call_state" where
  "arrivals lk cs s = fold (\<lambda>c. ice_child_added lk (Some c)) cs s"

text \<open>The number of \<open>restartIce()\<close> calls made on all connections.\<close>

definition restart_count :: "call_state \<Rightarrow> nat" where
  "restart_count s = sum_list (map (\<lambda>p. count_list (calls p) RestartIce) (pcs s))"

text \<open>The link reports \<open>failed\<close> once for each offer of the list.\<close>

definition failures :: "link \<Rightarrow> sdp list \<Rightarrow> nat option \<Rightarrow> call_state \<Rightarrow> call_state" where
  "failures lk ofrs an s = fold (\<lambda>ofr. onconnectionstatechange lk CsFailed ofr an) ofrs s"

section \<open>video.js: sample states\<close>

text \<open>
  The state when the scripts have loaded, a logged-in user in a chat room, and that user
  after \<open>startJoin\<close> has captured a camera stream.
\<close>

definition initial_call_state :: call_state where
  "initial_call_state =
     \<lparr>username = [], currentRoom = [], dbReady = False, localStream = None,
      screenStream = None, pcs = [], peerConns = [], iceQueues = [], arrays = [],
      callRoom = None,
      participantsRef = None, isMuted = False, isCamOff = False, isSharing = False,
      audioAnalysers = [], tiles = [], callCount = 0, callRoomLabel = [],
      callUiShown = False, stoppedTracks = [], releasedAnalysers = [], db_log = [],
      alerts = [], uncaught = [], stopped = []\<rparr>"

definition logged_in :: "js_string \<Rightarrow> js_string \<Rightarrow> call_state" where
  "logged_in user room =
     initial_call_state\<lparr>username := user, currentRoom := room, dbReady := True\<rparr>"

definition camera :: stream where
  "camera = [(AudioTrack, 0), (VideoTrack, 1)]"

definition in_call :: "js_string \<Rightarrow> js_string \<Rightarrow> call_state" where
  "in_call user room = startJoin (Inr camera) (logged_in user room)"

text \<open>The sample user \<open>bob\<close>, in a call in room \<open>general\<close>, after the roster has announced \<open>alice\<close>.\<close>

definition sample_call :: call_state where
  "sample_call = roster_child_added (js ''alice'') (OfferT, js ''o1'') (in_call (js ''bob'') (js ''general''))"

text \<open>
  The link \<open>bob\<close> creates for \<open>alice\<close>, and the sample call once that link has reported
  \<open>connected\<close> and an audio monitor has been built for it.
\<close>

definition sample_link :: link where
  "sample_link = mk_link (in_call (js ''bob'') (js ''general'')) (js ''alice'') (js ''general'') True"

definition sample_connected :: call_state where
  "sample_connected =
     onconnectionstatechange sample_link CsConnected (OfferT, js ''o9'') (Some 7) sample_call"

text \<open>
  A run in which \<open>alice\<close> leaves the call before her answer has come and joins again:
  \<open>bob\<close> joins, the roster announces \<open>alice\<close>, her removal, and \<open>alice\<close> again; then one
  candidate of hers is published and reaches the listener of the first link, which is
  still attached, and the listener of the second. \<open>rejoin_link\<close> is the link \<open>bob\<close>
  creates for her the second time.
\<close>

definition rejoin_link :: link where
  "rejoin_link =
     mk_link (roster_child_removed (js ''alice'') sample_call) (js ''alice'') (js ''general'') True"

definition rejoin_arrivals :: "call_event list" where
  "rejoin_arrivals =
     [CallButton (Inr camera),
      RosterAdded (js ''alice'') (OfferT, js ''o1''),
      RosterRemoved (js ''alice''),
      RosterAdded (js ''alice'') (OfferT, js ''o2''),
      IceArrived sample_link (Some 11),
      IceArrived rejoin_link (Some 11)]"

definition rejoined :: call_state where
  "rejoined = fold step rejoin_arrivals (logged_in (js ''bob'') (js ''general''))"

text \<open>
  Then \<open>alice\<close>'s answer arrives, at the listeners of both links, and the promises the
  handler of the second link waits for are fulfilled one after the other:
  \<open>setRemoteDescription\<close> and one \<open>safeAddIce\<close> for each element of the queue.
\<close>

definition rejoin_answer :: "call_event list" where
  "rejoin_answer =
     [AnswerValue sample_link (Some (AnswerT, js ''a1'')),
      AnswerValue rejoin_link (Some (AnswerT, js ''a1'')),
      Settled 0 (AnswerT, []), Settled 0 (AnswerT, []), Settled 0 (AnswerT, [])]"

text \<open>
  Two runs of the sample call, with \<open>alice\<close>'s candidates 11 and 12 arriving before her
  answer: in the first the candidate 13 arrives when the flush has ended, in the second
  while the flush waits for \<open>addIceCandidate\<close> of 11.
\<close>

definition flush_then_arrival :: "call_event list" where
  "flush_then_arrival =
     [IceArrived sample_link (Some 11), IceArrived sample_link (Some 12),
      AnswerValue sample_link (Some (AnswerT, js ''a1'')),
      Settled 0 (AnswerT, []), Settled 0 (AnswerT, []), Settled 0 (AnswerT, []),
      IceArrived sample_link (Some 13)]"

definition arrival_in_flush :: "call_event list" where
  "arrival_in_flush =
     [IceArrived sample_link (Some 11), IceArrived sample_link (Some 12),
      AnswerValue sample_link (Some (AnswerT, js ''a1'')),
      Settled 0 (AnswerT, []), IceArrived sample_link (Some 13),
      Settled 0 (AnswerT, []), Settled 0 (AnswerT, [])]"

text \<open>
  The other side of the sample call: \<open>alice\<close>, in the call, after the roster has
  announced \<open>bob\<close>, and the link she creates for him. In the run, \<open>bob\<close>'s candidates 21
  and 22 arrive before his offer; the candidate 23 arrives when \<open>setRemoteDescription\<close>
  has been fulfilled and the handler waits for \<open>createAnswer\<close>, which resolves to the
  answer \<open>a1\<close>.
\<close>

definition responder_call :: call_state where
  "responder_call =
     roster_child_added (js ''bob'') (OfferT, js ''o0'') (in_call (js ''alice'') (js ''general''))"

definition responder_link :: link where
  "responder_link = mk_link (in_call (js ''alice'') (js ''general'')) (js ''bob'') (js ''general'') False"

definition responder_run :: "call_event list" where
  "responder_run =
     [IceArrived responder_link (Some 21), IceArrived responder_link (Some 22),
      OfferValue responder_link (Some (OfferT, js ''o1'')),
      Settled 0 (AnswerT, []),
      IceArrived responder_link (Some 23),
      Settled 0 (AnswerT, js ''a1''), Settled 0 (AnswerT, []), Settled 0 (AnswerT, []),
      Settled 0 (AnswerT, []), Settled 0 (AnswerT, [])]"

text \<open>
  The sample call once \<open>alice\<close>'s answer has arrived and has been applied, and the link
  has reported \<open>connected\<close>.
\<close>

definition sample_established :: call_state where
  "sample_established =
     onconnectionstatechange sample_link CsConnected (OfferT, []) (Some 7)
       (resume 0 (AnswerT, [])
          (on_answer_value sample_link (Some (AnswerT, js ''a1'')) sample_call))"

section \<open>app.js: user names\<close>

text \<open>
  \<open>String.prototype.trim\<close> strips white space and line terminators from both ends:
  TAB, LF, VT, FF, CR, SP, NBSP, U+1680, U+2000 to U+200A, U+2028, U+2029, U+202F,
  U+205F, U+3000 and U+FEFF.
\<close>

definition is_ws :: "nat \<Rightarrow> bool" where
  "is_ws c = (c \<in> set [9, 10, 11, 12, 13, 32, 160, 5760, 8232, 8233, 8239, 8287, 12288, 65279]
              \<or> (8192 \<le> c \<and> c \<le> 8202))"

definition trim :: "js_string \<Rightarrow> js_string" where
  "trim s = rev (dropWhile is_ws (rev (dropWhile is_ws s)))"

text \<open>
  The class \<open>[\w\-. ]\<close> of a regular expression without flags: ASCII letters, digits,
  underscore, hyphen, dot and space.
\<close>

definition name_char :: "nat \<Rightarrow> bool" where
  "name_char c = ((48 \<le> c \<and> c \<le> 57) \<or> (65 \<le> c \<and> c \<le> 90) \<or> (97 \<le> c \<and> c \<le> 122)
                  \<or> c = 95 \<or> c = 45 \<or> c = 46 \<or> c = 32)"

text \<open>\<open>raw.trim().replace(/[^\w\-. ]/g, '').slice(0, 24)\<close>, as both variants of app.js have it.\<close>

definition sanitize :: "js_string \<Rightarrow> js_string" where
  "sanitize raw = take 24 (filter name_char (trim raw))"

datatype screen = LoginScreen | ChatScreen

section \<open>app.js, Gun variant\<close>

definition PRESENCE_TTL :: int where
  "PRESENCE_TTL = 90000"

record presence =
  p_username :: js_string
  p_lastSeen :: int
  p_online :: bool

text \<open>
  The globals of the Gun variant and the parts of the page and of the Gun graph that
  login, renaming and presence touch: the name kept in local storage, the screen shown,
  the label with the own name, the connection banner, how often the name input was
  shaken, the online list as rendered (names and count), the presence nodes written, the
  node the ping interval refreshes, the number of presence watchers (listener and
  recheck interval) started, whether \<open>gun\<close> is set, and the errors thrown out of a
  handler. Rooms are kept as far as the current room's name.
\<close>

record gun_app =
  g_username :: js_string
  g_stored_name :: "js_string option"
  g_screen :: screen
  g_meLabel :: js_string
  g_currentRoom :: js_string
  g_rooms :: "js_string list"
  g_bannerShown :: bool
  g_shakes :: nat
  g_onlineNow :: "(js_string \<times> presence) list"
  g_userList :: "js_string list"
  g_onlineCount :: nat
  g_puts :: "(js_string \<times> presence) list"
  g_pingFor :: "js_string option"
  g_watchers :: nat
  g_gunReady :: bool
  g_uncaught :: "js_error list"

definition DEFAULT_ROOMS :: "js_string list" where
  "DEFAULT_ROOMS = map js [''general'', ''random'', ''tech'', ''gaming'', ''music'']"

definition gun_initial :: gun_app where
  "gun_initial =
     \<lparr>g_username = [], g_stored_name = None, g_screen = LoginScreen, g_meLabel = [],
      g_currentRoom = [], g_rooms = DEFAULT_ROOMS, g_bannerShown = False, g_shakes = 0,
      g_onlineNow = [], g_userList = [], g_onlineCount = 0, g_puts = [], g_pingFor = None,
      g_watchers = 0, g_gunReady = False, g_uncaught = []\<rparr>"

text \<open>\<open>startPresence\<close>; \<open>now\<close> is \<open>Date.now()\<close>.\<close>

definition gun_startPresence :: "int \<Rightarrow> gun_app \<Rightarrow> gun_app" where
  "gun_startPresence now s =
     s\<lparr>g_puts := g_puts s @ [(g_username s,
            \<lparr>p_username = g_username s, p_lastSeen = now, p_online = True\<rparr>)],
       g_pingFor := Some (g_username s),
       g_watchers := g_watchers s + 1\<rparr>"

definition gun_joinRoom :: "js_string \<Rightarrow> gun_app \<Rightarrow> gun_app" where
  "gun_joinRoom room s = (if room = g_currentRoom s then s else s\<lparr>g_currentRoom := room\<rparr>)"

text \<open>
  \<open>doLogin\<close> of the Gun variant; \<open>initGun\<close>, which it calls, sets \<open>gun\<close> and shows the
  banner. \<open>rooms\<close> starts as the default rooms and only grows, so \<open>rooms[0]\<close> exists.
\<close>

definition gun_doLogin :: "int \<Rightarrow> js_string \<Rightarrow> gun_app \<Rightarrow> gun_app" where
  "gun_doLogin now raw s =
     (let name = sanitize raw in
      if name = [] then s\<lparr>g_shakes := g_shakes s + 1\<rparr>
      else
        let s1 = s\<lparr>g_username := name, g_stored_name := Some name, g_screen := ChatScreen,
                   g_meLabel := name, g_bannerShown := True, g_gunReady := True\<rparr>;
            s2 = gun_startPresence now s1
        in case g_rooms s2 of [] \<Rightarrow> s2 | r # rs \<Rightarrow> gun_joinRoom r s2)"

text \<open>
  The handler of the change-name button; \<open>answer\<close> is what \<open>prompt\<close> returns, \<open>None\<close> when
  it is cancelled. \<open>gun\<close> is set by \<open>initGun\<close> only: before a login \<open>gun.get\<close> throws, and
  nothing has been changed by then.
\<close>

definition gun_rename :: "int \<Rightarrow> js_string option \<Rightarrow> gun_app \<Rightarrow> gun_app" where
  "gun_rename now answer s =
     (case answer of
        None \<Rightarrow> s
      | Some n \<Rightarrow>
          if n = [] then s
          else
            let clean = sanitize n in
            if clean = [] then s
            else if \<not> g_gunReady s then s\<lparr>g_uncaught := g_uncaught s @ [TypeError]\<rparr>
            else
              let s1 = s\<lparr>g_puts := g_puts s @ [(g_username s,
                             \<lparr>p_username = g_username s, p_lastSeen = now, p_online = False\<rparr>)],
                         g_pingFor := None\<rparr>;
                  s2 = s1\<lparr>g_username := clean, g_stored_name := Some clean, g_meLabel := clean\<rparr>
              in gun_startPresence now s2)"

definition renderOnlineUsers :: "gun_app \<Rightarrow> gun_app" where
  "renderOnlineUsers s =
     s\<lparr>g_onlineCount := length (g_onlineNow s),
       g_userList := map (\<lambda>(k, d). p_username d) (g_onlineNow s)\<rparr>"

text \<open>
  The listener on the presence nodes; \<open>data\<close> is \<open>None\<close> for a falsy node, \<open>now\<close> is
  \<open>Date.now()\<close>.
\<close>

definition presence_on :: "int \<Rightarrow> presence option \<Rightarrow> js_string \<Rightarrow> gun_app \<Rightarrow> gun_app" where
  "presence_on now data key s =
     (case data of
        None \<Rightarrow> s
      | Some d \<Rightarrow>
          if p_username d = [] then s
          else
            let alive = (p_online d \<and> now - p_lastSeen d < PRESENCE_TTL)
            in renderOnlineUsers
                 (if alive then s\<lparr>g_onlineNow := obj_assign key d (g_onlineNow s)\<rparr>
                  else s\<lparr>g_onlineNow := AList.delete key (g_onlineNow s)\<rparr>))"

text \<open>The staleness recheck that runs every 30 s.\<close>

definition recheck_key :: "int \<Rightarrow> js_string \<Rightarrow> (js_string \<times> presence) list \<Rightarrow> (js_string \<times> presence) list" where
  "recheck_key now k m =
     (case map_of m k of
        None \<Rightarrow> m
      | Some d \<Rightarrow> if now - p_lastSeen d \<ge> PRESENCE_TTL then AList.delete k m else m)"

definition recheck :: "int \<Rightarrow> gun_app \<Rightarrow> gun_app" where
  "recheck now s =
     renderOnlineUsers (s\<lparr>g_onlineNow := fold (recheck_key now) (map fst (g_onlineNow s)) (g_onlineNow s)\<rparr>)"

datatype gun_event = PresenceNode int "presence option" js_string | Recheck int

fun gun_step :: "gun_event \<Rightarrow> gun_app \<Rightarrow> gun_app" where
  "gun_step (PresenceNode now data key) s = presence_on now data key s"
| "gun_step (Recheck now) s = recheck now s"

text \<open>
  A sample run: \<open>alice\<close>'s node arrives at 1000 ms, three rechecks follow at 30 s, 60 s and
  90 s, and \<open>bob\<close>'s node arrives at 100 s.
\<close>

definition alice_node :: presence where
  "alice_node = \<lparr>p_username = js ''alice'', p_lastSeen = 1000, p_online = True\<rparr>"

definition bob_node :: presence where
  "bob_node = \<lparr>p_username = js ''bob'', p_lastSeen = 100000, p_online = True\<rparr>"

definition stale_run :: "gun_event list" where
  "stale_run = [PresenceNode 1000 (Some alice_node) (js ''alice''), Recheck 30000, Recheck 60000,
                Recheck 90000, PresenceNode 100000 (Some bob_node) (js ''bob'')]"

section \<open>app.js, Firebase variant\<close>

record user_rec =
  u_username :: js_string
  u_keyHash :: js_string
  u_createdAt :: nat
  u_lastSeen :: nat

datatype login_msg =
  EnterUsername | EnterKey | Checking | AccountCreated js_string | WrongKey js_string
| WelcomeBack js_string | LoginFailed js_string

datatype status_type = StatusError | StatusSuccess | StatusInfo

datatype banner = ConfigError "js_string option" | ConnectingBanner

datatype input_field = UsernameInput | KeyInput

datatype fb_op = WatchConnected | PresenceOffline js_string | PresenceFor js_string | WatchPresence

text \<open>
  The globals of the Firebase variant and the parts of the page and of the platform that
  login and renaming touch: the name kept in local storage, the screen shown, the label
  with the own name, the login status line, the state of the join button, the connection
  banner (\<open>None\<close> when hidden), the input that has the focus, whether \<open>db\<close> and
  \<open>firestoreDb\<close> are set, the \<open>users\<close> collection of the account directory, the custom
  rooms kept in local storage, the alerts, the listeners and presence writes started on
  the realtime database, and the errors thrown out of a handler. Rooms are kept as far as
  the room list and the current room's name.
\<close>

record fb_app =
  f_username :: js_string
  f_stored_name :: "js_string option"
  f_screen :: screen
  f_meLabel :: js_string
  f_status :: "(login_msg \<times> status_type) option"
  f_busy :: bool
  f_banner :: "banner option"
  f_focus :: "input_field option"
  f_dbReady :: bool
  f_users :: "(js_string \<times> user_rec) list"
  f_currentRoom :: js_string
  f_rooms :: "js_string list"
  f_stored_rooms :: "js_string list"
  f_alerts :: "js_string list"
  f_ops :: "fb_op list"
  f_uncaught :: "js_error list"

text \<open>
  What the platform supplies to one run of \<open>doLogin\<close> or of the change-name handler: the
  message of the error Firebase initialisation throws, if it does; the message of the
  error an awaited call of the \<open>try\<close> block (hashing, reading or creating the record)
  rejects with, if one does; whether \<open>hashKey\<close> throws in the change-name handler; the
  server's time stamp.
\<close>

record platform =
  init_error :: "js_string option"
  io_error :: "js_string option"
  hash_throws :: bool
  server_time :: nat

definition fb_initial :: fb_app where
  "fb_initial =
     \<lparr>f_username = [], f_stored_name = None, f_screen = LoginScreen, f_meLabel = [],
      f_status = None, f_busy = False, f_banner = None, f_focus = Some UsernameInput,
      f_dbReady = False, f_users = [], f_currentRoom = [], f_rooms = DEFAULT_ROOMS,
      f_stored_rooms = [], f_alerts = [], f_ops = [], f_uncaught = []\<rparr>"

text \<open>\<open>initFirebase\<close>; the configured API key does not start with \<open>PASTE_\<close>.\<close>

definition initFirebase :: "platform \<Rightarrow> fb_app \<Rightarrow> bool \<times> fb_app" where
  "initFirebase env s =
     (case init_error env of
        Some msg \<Rightarrow> (False, s\<lparr>f_banner := Some (ConfigError (Some msg))\<rparr>)
      | None \<Rightarrow> (True, s\<lparr>f_dbReady := True\<rparr>))"

definition fb_startPresence :: "js_string option \<Rightarrow> fb_app \<Rightarrow> fb_app" where
  "fb_startPresence oldUsername s =
     s\<lparr>f_ops := f_ops s @ (if truthy oldUsername then [PresenceOffline (template_str oldUsername)] else [])
                        @ [PresenceFor (f_username s), WatchPresence]\<rparr>"

definition loadCustomRooms :: "fb_app \<Rightarrow> fb_app" where
  "loadCustomRooms s =
     s\<lparr>f_rooms := fold (\<lambda>r rs. if r \<in> set rs then rs else rs @ [r]) (f_stored_rooms s) (f_rooms s)\<rparr>"

definition fb_joinRoom :: "js_string \<Rightarrow> fb_app \<Rightarrow> fb_app" where
  "fb_joinRoom room s = (if room = f_currentRoom s then s else s\<lparr>f_currentRoom := room\<rparr>)"

text \<open>What \<open>doLogin\<close> does once the key has been accepted.\<close>

definition enter_chat :: "js_string \<Rightarrow> fb_app \<Rightarrow> fb_app" where
  "enter_chat name s =
     (let s1 = s\<lparr>f_username := name, f_stored_name := Some name, f_screen := ChatScreen,
                 f_meLabel := name, f_busy := False, f_banner := Some ConnectingBanner,
                 f_ops := f_ops s @ [WatchConnected]\<rparr>
      in fb_joinRoom (js ''general'') (loadCustomRooms (fb_startPresence None s1)))"

definition new_user :: "js_string \<Rightarrow> js_string \<Rightarrow> nat \<Rightarrow> user_rec" where
  "new_user name keyHash t =
     \<lparr>u_username = name, u_keyHash = keyHash, u_createdAt = t, u_lastSeen = t\<rparr>"

text \<open>
  \<open>doLogin\<close> of the Firebase variant. \<open>hashKey\<close> is the SHA-256 digest of the Web Crypto
  API as a hexadecimal string, an argument here.
\<close>

definition fb_doLogin ::
  "(js_string \<Rightarrow> js_string) \<Rightarrow> platform \<Rightarrow> js_string \<Rightarrow> js_string \<Rightarrow> fb_app \<Rightarrow> fb_app" where
  "fb_doLogin hashKey env rawName rawKey s =
     (let name = sanitize rawName; key = trim rawKey in
      if name = [] then s\<lparr>f_status := Some (EnterUsername, StatusError), f_focus := Some UsernameInput\<rparr>
      else if key = [] then s\<lparr>f_status := Some (EnterKey, StatusError), f_focus := Some KeyInput\<rparr>
      else
        (case initFirebase env s of
           (False, s1) \<Rightarrow> s1
         | (True, s1) \<Rightarrow>
             let s2 = s1\<lparr>f_busy := True, f_status := Some (Checking, StatusInfo)\<rparr> in
             (case io_error env of
                Some msg \<Rightarrow> s2\<lparr>f_status := Some (LoginFailed msg, StatusError), f_busy := False\<rparr>
              | None \<Rightarrow>
                  (case map_of (f_users s2) name of
                     None \<Rightarrow>
                       enter_chat name
                         (s2\<lparr>f_users := AList.update name
                                 (new_user name (hashKey key) (server_time env)) (f_users s2),
                             f_status := Some (AccountCreated name, StatusSuccess)\<rparr>)
                   | Some u \<Rightarrow>
                       if u_keyHash u \<noteq> hashKey key
                       then s2\<lparr>f_status := Some (WrongKey name, StatusError), f_busy := False\<rparr>
                       else
                         enter_chat name
                           (s2\<lparr>f_users := AList.update name (u\<lparr>u_lastSeen := server_time env\<rparr>)
                                            (f_users s2),
                               f_status := Some (WelcomeBack name, StatusSuccess)\<rparr>)))))"

text \<open>
  The handler of the change-name button; \<open>newName\<close> and \<open>key\<close> are what the two prompts
  return, \<open>None\<close> when cancelled. \<open>firestoreDb\<close> is set by \<open>initFirebase\<close> only: before a
  login \<open>firestoreDb.collection\<close> throws, and nothing has been changed by then. Reading
  and writing the record are not inside a \<open>try\<close> and are taken to succeed.
\<close>

definition fb_rename ::
  "(js_string \<Rightarrow> js_string) \<Rightarrow> platform \<Rightarrow> js_string option \<Rightarrow> js_string option \<Rightarrow> fb_app \<Rightarrow> fb_app" where
  "fb_rename hashKey env newName key s =
     (if \<not> truthy newName then s
      else
        let clean = sanitize (template_str newName) in
        if clean = [] \<or> clean = f_username s then s
        else if \<not> truthy key then s
        else if hash_throws env then s
        else if \<not> f_dbReady s then s\<lparr>f_uncaught := f_uncaught s @ [TypeError]\<rparr>
        else
          let keyHash = hashKey (trim (template_str key)) in
          (case map_of (f_users s) clean of
             Some u \<Rightarrow>
               if u_keyHash u \<noteq> keyHash then s\<lparr>f_alerts := f_alerts s @ [clean]\<rparr>
               else
                 fb_startPresence (Some (f_username s))
                   (s\<lparr>f_users := AList.update clean (u\<lparr>u_lastSeen := server_time env\<rparr>) (f_users s),
                      f_username := clean, f_stored_name := Some clean, f_meLabel := clean\<rparr>)
           | None \<Rightarrow>
               fb_startPresence (Some (f_username s))
                 (s\<lparr>f_users := AList.update clean (new_user clean keyHash (server_time env)) (f_users s),
                    f_username := clean, f_stored_name := Some clean, f_meLabel := clean\<rparr>)))"


text \<open>What an accepted user name looks like.\<close>

definition valid_name :: "js_string \<Rightarrow> bool" where
  "valid_name n = (n \<noteq> [] \<and> length n \<le> 24 \<and> list_all name_char n)"

text \<open>A registered account and a login screen of the Firebase variant that knows it.\<close>

definition sample_hash :: "js_string \<Rightarrow> js_string" where
  "sample_hash k = js ''h:'' @ k"

definition fb_sample :: fb_app where
  "fb_sample = fb_initial\<lparr>f_users := [(js ''bob'', new_user (js ''bob'') (sample_hash (js ''s3cret'')) 5)]\<rparr>"

definition fine :: platform where
  "fine = \<lparr>init_error = None, io_error = None, hash_throws = False, server_time = 9\<rparr>"

text \<open>The user \<open>bob\<close> logged in, in each variant.\<close>

definition gun_bob :: gun_app where
  "gun_bob = gun_doLogin 1 (js ''bob'') gun_initial"

definition fb_bob :: fb_app where
  "fb_bob = fb_doLogin sample_hash fine (js ''bob'') (js '' s3cret '') fb_sample"

section \<open>Basic facts\<close>

lemma js_Nil [simp]: "js [] = []"
  by (simp add: js_def)

lemma js_Cons [simp]: "js (c # cs) = of_char c # js cs"
  by (simp add: js_def)

lemma sdp_writes_append [simp]: "sdp_writes (xs @ ys) = sdp_writes xs @ sdp_writes ys"
  by (induction xs rule: sdp_writes.induct) auto

lemma db_log_pc_upd [simp]: "db_log (pc_upd r f s) = db_log s"
  by (simp add: pc_upd_def)

lemma db_log_pc_call [simp]: "db_log (pc_call r cs s) = db_log s"
  by (simp add: pc_call_def)

lemma db_log_db_do [simp]: "db_log (db_do ops s) = db_log s @ ops"
  by (simp add: db_do_def)

lemma db_log_addPeerTile [simp]: "db_log (addPeerTile p s) = db_log s"
  by (simp add: addPeerTile_def updateCount_def)

lemma localStream_addPeerTile [simp]: "localStream (addPeerTile p s) = localStream s"
  by (simp add: addPeerTile_def updateCount_def)

lemma in_call_simps:
  "username (in_call u r) = u"
  "callRoom (in_call u r) = (if u = [] then None else Some r)"
  "localStream (in_call u r) = (if u = [] then None else Some camera)"
  "peerConns (in_call u r) = []"
  by (simp_all add: in_call_def logged_in_def initial_call_state_def startJoin_def Let_def
      addVideoTile_def updateCount_def db_do_def)

lemma in_call_pcs: "pcs (in_call u r) = []"
  by (simp add: in_call_def logged_in_def initial_call_state_def startJoin_def Let_def
      addVideoTile_def updateCount_def db_do_def)

section \<open>Role assignment\<close>

lemma new_ops_connect:
  assumes "\<not> has_conn s peer" "localStream s = Some st"
  shows "new_ops s (connectToPeer peer room ini ofr s) =
           (let lk = mk_link s peer room ini in
            DbOn (lk_path lk @ js ''/'' @ theirIceKey lk) ChildAdded #
            (if ini then [DbSet (offer_path lk) (SdpVal ofr), DbOn (answer_path lk) ValueEvent]
             else [DbOn (offer_path lk) ValueEvent]))"
  using assms by (simp add: connectToPeer_def new_ops_def Let_def)

text \<open>
  Two distinct identities \<open>a\<close> and \<open>b\<close> are in a call in the same room, and on each side
  the other's add event passes the test \<open>peerConns[peer]\<close> of the roster listener: there
  is no connection to the peer yet and the peer's name is not one that \<open>Object.prototype\<close>
  provides. Then each side evaluates \<open>username > peer\<close>, the two results are
  complementary, the side that computes \<open>true\<close> is the higher identity under string
  comparison, both sides compute the same signaling path, keyed (higher, lower), and
  between them the two sides write exactly one session description: the offer of the
  higher identity, at that path.
\<close>

lemma roles_complementary:
  assumes "a \<noteq> b"
    and "username sA = a" and "username sB = b"
    and "callRoom sA = Some room" and "callRoom sB = Some room"
    and "localStream sA = Some stA" and "localStream sB = Some stB"
    and "\<not> has_conn sA b" and "\<not> has_conn sB a"
  shows "js_gt a b = (\<not> js_gt b a)
       \<and> js_gt a b = (a = max a b)
       \<and> lk_path (mk_link sA b room (js_gt a b)) = conn_path room (max a b) (min a b)
       \<and> lk_path (mk_link sB a room (js_gt b a)) = conn_path room (max a b) (min a b)
       \<and> sdp_writes (new_ops sA (roster_child_added b ofrA sA))
           @ sdp_writes (new_ops sB (roster_child_added a ofrB sB))
         = [(conn_path room (max a b) (min a b) @ js ''/offer'',
             if js_gt a b then ofrA else ofrB)]"
proof -
  have ro: "js_gt a b = (\<not> js_gt b a)"
    using assms(1) by (auto simp: js_gt_def)
  have mx: "js_gt a b = (a = max a b)"
    using assms(1) by (auto simp: js_gt_def max_def)
  have pA: "lk_path (mk_link sA b room (js_gt a b)) = conn_path room (max a b) (min a b)"
    using assms(1,2) by (auto simp: mk_link_def js_gt_def max_def min_def)
  have pB: "lk_path (mk_link sB a room (js_gt b a)) = conn_path room (max a b) (min a b)"
    using assms(1,3) by (auto simp: mk_link_def js_gt_def max_def min_def)
  have nA: "new_ops sA (roster_child_added b ofrA sA) =
       new_ops sA (connectToPeer b room (js_gt a b) ofrA sA)"
    using assms by (simp add: roster_child_added_def)
  have nB: "new_ops sB (roster_child_added a ofrB sB) =
       new_ops sB (connectToPeer a room (js_gt b a) ofrB sB)"
    using assms by (simp add: roster_child_added_def)
  have w: "sdp_writes (new_ops sA (roster_child_added b ofrA sA))
           @ sdp_writes (new_ops sB (roster_child_added a ofrB sB))
         = [(conn_path room (max a b) (min a b) @ js ''/offer'',
             if js_gt a b then ofrA else ofrB)]"
    unfolding nA nB new_ops_connect[OF assms(8,6)] new_ops_connect[OF assms(9,7)]
    using ro pA pB by (cases "js_gt a b") (simp_all add: Let_def offer_path_def)
  from ro mx pA pB w show ?thesis by blast
qed

lemma roles_of_bob_and_alice:
  "js_gt (js ''bob'') (js ''alice'') \<and> \<not> js_gt (js ''alice'') (js ''bob'')
   \<and> sdp_writes (new_ops (in_call (js ''bob'') (js ''general''))
         (roster_child_added (js ''alice'') (OfferT, js ''o1'')
            (in_call (js ''bob'') (js ''general''))))
     @ sdp_writes (new_ops (in_call (js ''alice'') (js ''general''))
         (roster_child_added (js ''bob'') (OfferT, js ''o2'')
            (in_call (js ''alice'') (js ''general''))))
     = [(js ''cs1/calls/general/connections/bob___alice/offer'', (OfferT, js ''o1''))]"
proof -
  have gt: "js_gt (js ''bob'') (js ''alice'')"
    by (simp add: js_gt_def)
  have h1: "js ''bob'' \<noteq> js ''alice''"
    by simp
  have h8: "\<not> has_conn (in_call (js ''bob'') (js ''general'')) (js ''alice'')"
    by (simp add: has_conn_def in_call_simps inherited_def object_proto_keys_def)
  have h9: "\<not> has_conn (in_call (js ''alice'') (js ''general'')) (js ''bob'')"
    by (simp add: has_conn_def in_call_simps inherited_def object_proto_keys_def)
  have mx: "max (js ''bob'') (js ''alice'') = js ''bob''"
    "min (js ''bob'') (js ''alice'') = js ''alice''"
    by (simp_all add: max_def min_def)
  from roles_complementary [OF h1 _ _ _ _ _ _ h8 h9, of "js ''general''" camera camera
      "(OfferT, js ''o1'')" "(OfferT, js ''o2'')"] gt
  show ?thesis
    unfolding mx by (simp add: in_call_simps conn_path_def DB_ROOT_def)
qed

text \<open>
  C2 fails for an identity whose name \<open>Object.prototype\<close> provides, such as
  \<open>constructor\<close>, which the sanitizer of user names lets through. \<open>zed\<close> and
  \<open>constructor\<close> are in a call in room \<open>general\<close>. \<open>zed\<close> is the higher identity, but on
  its side \<open>peerConns['constructor']\<close> is the inherited function, so the roster listener
  drops the add event: no connection, no offer. On the other side the add event for
  \<open>zed\<close> makes \<open>constructor\<close> the responder: it writes no session description and listens
  at the offer path of the pair, where nothing is ever written. No offer is created for
  the pair.
\<close>

theorem prototype_name_gets_no_offer:
  "sanitize (js ''constructor'') = js ''constructor''
   \<and> js_gt (js ''zed'') (js ''constructor'')
   \<and> roster_child_added (js ''constructor'') (OfferT, js ''o1'') (in_call (js ''zed'') (js ''general''))
       = in_call (js ''zed'') (js ''general'')
   \<and> peerConns (roster_child_added (js ''zed'') (OfferT, js ''o2'')
        (in_call (js ''constructor'') (js ''general''))) = [(js ''zed'', 0)]
   \<and> new_ops (in_call (js ''constructor'') (js ''general''))
        (roster_child_added (js ''zed'') (OfferT, js ''o2'')
           (in_call (js ''constructor'') (js ''general'')))
       = [DbOn (js ''cs1/calls/general/connections/zed___constructor/initiatorIce'') ChildAdded,
          DbOn (js ''cs1/calls/general/connections/zed___constructor/offer'') ValueEvent]
   \<and> sdp_writes (new_ops (in_call (js ''zed'') (js ''general''))
         (roster_child_added (js ''constructor'') (OfferT, js ''o1'')
            (in_call (js ''zed'') (js ''general''))))
     @ sdp_writes (new_ops (in_call (js ''constructor'') (js ''general''))
         (roster_child_added (js ''zed'') (OfferT, js ''o2'')
            (in_call (js ''constructor'') (js ''general''))))
     = []"
proof -
  have s: "sanitize (js ''constructor'') = js ''constructor''"
    by (simp add: sanitize_def trim_def is_ws_def name_char_def)
  have gt: "js_gt (js ''zed'') (js ''constructor'')" "\<not> js_gt (js ''constructor'') (js ''zed'')"
    by (simp_all add: js_gt_def)
  have inh: "inherited (js ''constructor'')" "\<not> inherited (js ''zed'')"
    by (simp_all add: inherited_def object_proto_keys_def)
  have dropped: "roster_child_added (js ''constructor'') (OfferT, js ''o1'')
      (in_call (js ''zed'') (js ''general'')) = in_call (js ''zed'') (js ''general'')"
    using inh(1) by (simp add: roster_child_added_def has_conn_def)
  have h: "\<not> has_conn (in_call (js ''constructor'') (js ''general'')) (js ''zed'')"
    using inh(2) by (simp add: has_conn_def in_call_simps)
  have st: "localStream (in_call (js ''constructor'') (js ''general'')) = Some camera"
    by (simp add: in_call_simps)
  have r: "roster_child_added (js ''zed'') (OfferT, js ''o2'')
             (in_call (js ''constructor'') (js ''general''))
           = connectToPeer (js ''zed'') (js ''general'') False (OfferT, js ''o2'')
               (in_call (js ''constructor'') (js ''general''))"
    using h gt(2) by (simp add: roster_child_added_def in_call_simps)
  have pc: "peerConns (connectToPeer (js ''zed'') (js ''general'') False (OfferT, js ''o2'')
               (in_call (js ''constructor'') (js ''general''))) = [(js ''zed'', 0)]"
    using h st
    by (simp add: connectToPeer_def Let_def mk_link_def in_call_simps in_call_pcs db_do_def
        pc_call_def pc_upd_def addPeerTile_def updateCount_def)
  have ops: "new_ops (in_call (js ''constructor'') (js ''general''))
        (connectToPeer (js ''zed'') (js ''general'') False (OfferT, js ''o2'')
           (in_call (js ''constructor'') (js ''general'')))
       = [DbOn (js ''cs1/calls/general/connections/zed___constructor/initiatorIce'') ChildAdded,
          DbOn (js ''cs1/calls/general/connections/zed___constructor/offer'') ValueEvent]"
    unfolding new_ops_connect[OF h st]
    by (simp add: Let_def mk_link_def theirIceKey_def offer_path_def conn_path_def DB_ROOT_def
        in_call_simps)
  have none: "new_ops (in_call (js ''zed'') (js ''general'')) (in_call (js ''zed'') (js ''general'')) = []"
    by (simp add: new_ops_def)
  show ?thesis
    unfolding r dropped
    using s gt(1) pc ops none by simp
qed

section \<open>What each operation leaves alone\<close>

lemma pc_upd_fields [simp]:
  "username (pc_upd r f s) = username s"
  "peerConns (pc_upd r f s) = peerConns s"
  "iceQueues (pc_upd r f s) = iceQueues s"
  "audioAnalysers (pc_upd r f s) = audioAnalysers s"
  "tiles (pc_upd r f s) = tiles s"
  "callRoom (pc_upd r f s) = callRoom s"
  "localStream (pc_upd r f s) = localStream s"
  "length (pcs (pc_upd r f s)) = length (pcs s)"
  "pcs (pc_upd r f s) = (pcs s)[r := f (pcs s ! r)]"
  by (simp_all add: pc_upd_def)

lemma pc_call_fields [simp]:
  "username (pc_call r cs s) = username s"
  "peerConns (pc_call r cs s) = peerConns s"
  "iceQueues (pc_call r cs s) = iceQueues s"
  "audioAnalysers (pc_call r cs s) = audioAnalysers s"
  "tiles (pc_call r cs s) = tiles s"
  "callRoom (pc_call r cs s) = callRoom s"
  "localStream (pc_call r cs s) = localStream s"
  "length (pcs (pc_call r cs s)) = length (pcs s)"
  by (simp_all add: pc_call_def)

lemma db_do_fields [simp]:
  "username (db_do ops s) = username s"
  "peerConns (db_do ops s) = peerConns s"
  "iceQueues (db_do ops s) = iceQueues s"
  "audioAnalysers (db_do ops s) = audioAnalysers s"
  "tiles (db_do ops s) = tiles s"
  "callRoom (db_do ops s) = callRoom s"
  "localStream (db_do ops s) = localStream s"
  "pcs (db_do ops s) = pcs s"
  by (simp_all add: db_do_def)

lemma throw_fields [simp]:
  "username (throw e s) = username s"
  "peerConns (throw e s) = peerConns s"
  "iceQueues (throw e s) = iceQueues s"
  "audioAnalysers (throw e s) = audioAnalysers s"
  "tiles (throw e s) = tiles s"
  "callRoom (throw e s) = callRoom s"
  "localStream (throw e s) = localStream s"
  "pcs (throw e s) = pcs s"
  "db_log (throw e s) = db_log s"
  by (simp_all add: throw_def)

lemma addPeerTile_fields [simp]:
  "username (addPeerTile p s) = username s"
  "peerConns (addPeerTile p s) = peerConns s"
  "iceQueues (addPeerTile p s) = iceQueues s"
  "audioAnalysers (addPeerTile p s) = audioAnalysers s"
  "callRoom (addPeerTile p s) = callRoom s"
  "pcs (addPeerTile p s) = pcs s"
  "tiles (addPeerTile p s) = (if p \<in> set (tiles s) then tiles s else tiles s @ [p])"
  by (simp_all add: addPeerTile_def updateCount_def)

lemma remove_rest_fields [simp]:
  "username (remove_rest k s) = username s"
  "peerConns (remove_rest k s) = peerConns s"
  "pcs (remove_rest k s) = pcs s"
  "tiles (remove_rest k s) = remove1 k (tiles s)"
  "iceQueues (remove_rest k s) = AList.delete k (iceQueues s)"
  "audioAnalysers (remove_rest k s) = AList.delete k (audioAnalysers s)"
  "callRoom (remove_rest k s) = callRoom s"
  "localStream (remove_rest k s) = localStream s"
  "db_log (remove_rest k s) = db_log s"
  by (simp_all add: remove_rest_def release_analyser_def updateCount_def Let_def
      AList.delete_notin_dom map_of_eq_None_iff delete_id split: option.splits)


lemma removePeer_fields [simp]:
  "username (removePeer k s) = username s"
  "length (pcs (removePeer k s)) = length (pcs s)"
  "peerConns (removePeer k s) = AList.delete k (peerConns s)"
  "callRoom (removePeer k s) = callRoom s"
  "localStream (removePeer k s) = localStream s"
  "db_log (removePeer k s) = db_log s"
  by (simp_all add: removePeer_def map_of_eq_None_iff delete_id split: option.splits)

lemma removePeer_tiles:
  "tiles (removePeer k s) = remove1 k (tiles s) \<or> tiles (removePeer k s) = tiles s"
  by (simp add: removePeer_def split: option.splits)

lemma removePeer_tiles_own:
  "map_of (peerConns s) k = Some r \<Longrightarrow> tiles (removePeer k s) = remove1 k (tiles s)"
  by (simp add: removePeer_def)


section \<open>The connection map\<close>

lemma update_fresh: "k \<notin> fst ` set al \<Longrightarrow> AList.update k v al = al @ [(k, v)]"
  by (induction al) auto

lemma conn_inv_removePeer:
  assumes "conn_inv s"
  shows "conn_inv (removePeer k s)"
proof -
  from removePeer_tiles[of k s]
  have t: "distinct (tiles s) \<Longrightarrow> distinct (tiles (removePeer k s))"
    and m: "\<And>x. x \<in> set (tiles s) \<Longrightarrow> x \<noteq> k \<Longrightarrow> x \<in> set (tiles (removePeer k s))"
    by auto
  have sub: "set (AList.delete k (peerConns s)) \<subseteq> set (peerConns s)"
    by (auto simp: AList.delete_eq)
  have nk: "\<And>x r. (x, r) \<in> set (AList.delete k (peerConns s)) \<Longrightarrow> x \<noteq> k"
    by (auto simp: AList.delete_eq)
  have d: "distinct (map fst (peerConns (removePeer k s)))"
    using assms by (simp add: conn_inv_def distinct_delete)
  have u: "username (removePeer k s) \<notin> fst ` set (peerConns (removePeer k s))"
    using assms sub by (auto simp: conn_inv_def)
  have dt: "distinct (tiles (removePeer k s))"
    using assms t by (simp add: conn_inv_def)
  have la: "list_all (\<lambda>(x, r). r < length (pcs (removePeer k s)) \<and> x \<in> set (tiles (removePeer k s))
                \<and> \<not> inherited x) (peerConns (removePeer k s))"
    unfolding list_all_iff
  proof (clarify)
    fix x r assume xr: "(x, r) \<in> set (peerConns (removePeer k s))"
    then have xr': "(x, r) \<in> set (peerConns s)" and xk: "x \<noteq> k"
      using sub nk by auto
    from assms xr' have "r < length (pcs s)" "x \<in> set (tiles s)" "\<not> inherited x"
      unfolding conn_inv_def list_all_iff by auto
    with xk m show "r < length (pcs (removePeer k s)) \<and> x \<in> set (tiles (removePeer k s))
                \<and> \<not> inherited x" by simp
  qed
  from d u dt la show ?thesis unfolding conn_inv_def by blast
qed

lemma conn_inv_new_link:
  assumes "conn_inv s" "peer \<noteq> username s" "\<not> has_conn s peer"
  shows "conn_inv (addPeerTile peer
                   (s\<lparr>pcs := pcs s @ [new_pc],
                      peerConns := AList.update peer (length (pcs s)) (peerConns s),
                      arrays := arrays s @ [[]],
                      iceQueues := AList.update peer (length (arrays s)) (iceQueues s)\<rparr>))"
proof -
  from assms(3) have ni: "\<not> inherited peer" and nk: "peer \<notin> fst ` set (peerConns s)"
    by (auto simp: has_conn_def map_of_eq_None_iff)
  note pcu = update_fresh[OF nk]
  from assms(1) have d: "distinct (map fst (peerConns s))" and u: "username s \<notin> fst ` set (peerConns s)"
    and dt: "distinct (tiles s)"
    and la: "\<And>x r. (x, r) \<in> set (peerConns s) \<Longrightarrow> r < length (pcs s) \<and> x \<in> set (tiles s) \<and> \<not> inherited x"
    unfolding conn_inv_def list_all_iff by auto
  show ?thesis
    unfolding conn_inv_def list_all_iff
    apply (simp add: pcu)
    using d u dt la nk ni assms(2) by (auto simp: less_Suc_eq)
qed


lemma conn_inv_eqI:
  assumes "conn_inv s" "username s' = username s" "peerConns s' = peerConns s"
    "tiles s' = tiles s" "length (pcs s') = length (pcs s)"
  shows "conn_inv s'"
  using assms by (simp add: conn_inv_def)

lemma conn_inv_connectToPeer:
  assumes "conn_inv s" "peer \<noteq> username s"
  shows "conn_inv (connectToPeer peer room ini ofr s)"
proof (cases "has_conn s peer")
  case True
  then show ?thesis using assms by (simp add: connectToPeer_def)
next
  case False
  note i1 = conn_inv_new_link[OF assms False]
  show ?thesis
    unfolding connectToPeer_def Let_def mk_link_def
    using False
    by (auto split: option.splits intro!: conn_inv_eqI[OF i1])
qed

lemma fold_removePeer_peerConns:
  "peerConns (fold removePeer ks s) = filter (\<lambda>(k, r). k \<notin> set ks) (peerConns s)"
  by (induction ks arbitrary: s) (auto simp: AList.delete_eq intro: filter_cong)

lemma fold_removePeer_fields [simp]:
  "username (fold removePeer ks s) = username s"
  "length (pcs (fold removePeer ks s)) = length (pcs s)"
  "callRoom (fold removePeer ks s) = callRoom s"
  "localStream (fold removePeer ks s) = localStream s"
  "db_log (fold removePeer ks s) = db_log s"
  by (induction ks arbitrary: s) auto

lemma fold_removePeer_all [simp]:
  "peerConns (fold removePeer (map fst (peerConns s)) s) = []"
  by (force simp: fold_removePeer_peerConns filter_empty_conv)

lemma leaveCall_peerConns: "truthy (callRoom s) \<Longrightarrow> peerConns (leaveCall s) = []"
  by (simp add: leaveCall_def Let_def db_do_def)

lemma leaveCall_tiles: "truthy (callRoom s) \<Longrightarrow> tiles (leaveCall s) = []"
  by (simp add: leaveCall_def Let_def db_do_def)

lemma conn_inv_leaveCall: "conn_inv s \<Longrightarrow> conn_inv (leaveCall s)"
proof (cases "truthy (callRoom s)")
  case True
  then show ?thesis by (simp add: conn_inv_def leaveCall_peerConns leaveCall_tiles)
next
  case False
  assume "conn_inv s" with False show ?thesis by (simp add: leaveCall_def)
qed

lemma conn_inv_startJoin: "conn_inv s \<Longrightarrow> conn_inv (startJoin media s)"
  unfolding conn_inv_def list_all_iff startJoin_def Let_def addVideoTile_def updateCount_def db_do_def
  by (auto split: sum.splits)


lemma safeAddIce_fields [simp]:
  "username (safeAddIce r c s) = username s"
  "peerConns (safeAddIce r c s) = peerConns s"
  "iceQueues (safeAddIce r c s) = iceQueues s"
  "tiles (safeAddIce r c s) = tiles s"
  "length (pcs (safeAddIce r c s)) = length (pcs s)"
  "db_log (safeAddIce r c s) = db_log s"
  by (simp_all add: safeAddIce_def)

lemma fold_safeAddIce_fields [simp]:
  "username (fold (safeAddIce r) q s) = username s"
  "peerConns (fold (safeAddIce r) q s) = peerConns s"
  "iceQueues (fold (safeAddIce r) q s) = iceQueues s"
  "tiles (fold (safeAddIce r) q s) = tiles s"
  "length (pcs (fold (safeAddIce r) q s)) = length (pcs s)"
  "db_log (fold (safeAddIce r) q s) = db_log s"
  by (induction q arbitrary: s) auto

lemma await_fields [simp]:
  "username (await t s) = username s"
  "peerConns (await t s) = peerConns s"
  "iceQueues (await t s) = iceQueues s"
  "arrays (await t s) = arrays s"
  "tiles (await t s) = tiles s"
  "pcs (await t s) = pcs s"
  "db_log (await t s) = db_log s"
  "uncaught (await t s) = uncaught s"
  "stopped (await t s) = stopped s @ [t]"
  by (simp_all add: await_def)

lemma call_and_await_fields [simp]:
  "username (call_and_await r c t s) = username s"
  "peerConns (call_and_await r c t s) = peerConns s"
  "iceQueues (call_and_await r c t s) = iceQueues s"
  "tiles (call_and_await r c t s) = tiles s"
  "length (pcs (call_and_await r c t s)) = length (pcs s)"
  "db_log (call_and_await r c t s) = db_log s"
  by (simp_all add: call_and_await_def)

lemma flush_end_fields [simp]:
  "username (flush_end lk s) = username s"
  "peerConns (flush_end lk s) = peerConns s"
  "tiles (flush_end lk s) = tiles s"
  "pcs (flush_end lk s) = pcs s"
  "db_log (flush_end lk s) = db_log s"
  by (simp_all add: flush_end_def)

lemma flush_next_fields [simp]:
  "username (flush_next lk a i s) = username s"
  "peerConns (flush_next lk a i s) = peerConns s"
  "tiles (flush_next lk a i s) = tiles s"
  "length (pcs (flush_next lk a i s)) = length (pcs s)"
  "db_log (flush_next lk a i s) = db_log s"
  by (simp_all add: flush_next_def)

lemma flushIceQueue_fields [simp]:
  "username (flushIceQueue lk s) = username s"
  "peerConns (flushIceQueue lk s) = peerConns s"
  "tiles (flushIceQueue lk s) = tiles s"
  "length (pcs (flushIceQueue lk s)) = length (pcs s)"
  "db_log (flushIceQueue lk s) = db_log s"
  by (simp_all add: flushIceQueue_def split: option.splits)

lemma ice_child_added_fields [simp]:
  "username (ice_child_added lk v s) = username s"
  "peerConns (ice_child_added lk v s) = peerConns s"
  "tiles (ice_child_added lk v s) = tiles s"
  "length (pcs (ice_child_added lk v s)) = length (pcs s)"
  "db_log (ice_child_added lk v s) = db_log s"
  by (simp_all add: ice_child_added_def split: option.splits)

lemma on_answer_value_fields [simp]:
  "username (on_answer_value lk v s) = username s"
  "peerConns (on_answer_value lk v s) = peerConns s"
  "tiles (on_answer_value lk v s) = tiles s"
  "length (pcs (on_answer_value lk v s)) = length (pcs s)"
  by (simp_all add: on_answer_value_def split: option.splits)

lemma on_offer_value_fields [simp]:
  "username (on_offer_value lk v s) = username s"
  "peerConns (on_offer_value lk v s) = peerConns s"
  "tiles (on_offer_value lk v s) = tiles s"
  "length (pcs (on_offer_value lk v s)) = length (pcs s)"
  by (simp_all add: on_offer_value_def split: option.splits)

lemma continue_fields [simp]:
  "username (continue t ans s) = username s"
  "peerConns (continue t ans s) = peerConns s"
  "tiles (continue t ans s) = tiles s"
  "length (pcs (continue t ans s)) = length (pcs s)"
  by (cases t; simp)+

lemma resume_fields [simp]:
  "username (resume n ans s) = username s"
  "peerConns (resume n ans s) = peerConns s"
  "tiles (resume n ans s) = tiles s"
  "length (pcs (resume n ans s)) = length (pcs s)"
  by (simp_all add: resume_def split: option.splits)

lemma onicecandidate_fields [simp]:
  "username (onicecandidate lk c s) = username s"
  "peerConns (onicecandidate lk c s) = peerConns s"
  "tiles (onicecandidate lk c s) = tiles s"
  "pcs (onicecandidate lk c s) = pcs s"
  by (simp_all add: onicecandidate_def split: option.splits)

lemma watchAudioLevel_fields [simp]:
  "username (watchAudioLevel p an s) = username s"
  "peerConns (watchAudioLevel p an s) = peerConns s"
  "iceQueues (watchAudioLevel p an s) = iceQueues s"
  "tiles (watchAudioLevel p an s) = tiles s"
  "pcs (watchAudioLevel p an s) = pcs s"
  "db_log (watchAudioLevel p an s) = db_log s"
  by (simp_all add: watchAudioLevel_def split: option.splits)

lemma ice_restart_fields [simp]:
  "username (ice_restart lk ofr s) = username s"
  "peerConns (ice_restart lk ofr s) = peerConns s"
  "iceQueues (ice_restart lk ofr s) = iceQueues s"
  "audioAnalysers (ice_restart lk ofr s) = audioAnalysers s"
  "tiles (ice_restart lk ofr s) = tiles s"
  "length (pcs (ice_restart lk ofr s)) = length (pcs s)"
  by (simp_all add: ice_restart_def)

lemma conn_inv_onconnectionstatechange:
  assumes "conn_inv s"
  shows "conn_inv (onconnectionstatechange lk cs ofr an s)"
proof -
  have a: "conn_inv (watchAudioLevel (lk_peer lk) an s)"
    by (rule conn_inv_eqI[OF assms]) simp_all
  have b: "\<And>t. conn_inv t \<Longrightarrow> conn_inv (ice_restart lk ofr t)"
    by (erule conn_inv_eqI) simp_all
  show ?thesis
    unfolding onconnectionstatechange_def Let_def
    using assms a b conn_inv_removePeer by simp
qed

lemma conn_inv_step: "conn_inv s \<Longrightarrow> conn_inv (step ev s)"
proof (cases ev)
  case (RosterAdded peer ofr)
  assume "conn_inv s"
  then show ?thesis
    using RosterAdded by (simp add: roster_child_added_def conn_inv_connectToPeer)
next
  case (ConnectionStateChange lk cs ofr an)
  assume "conn_inv s"
  then show ?thesis
    using ConnectionStateChange by (simp add: conn_inv_onconnectionstatechange)
qed (auto simp: conn_inv_leaveCall conn_inv_startJoin conn_inv_removePeer
        roster_child_removed_def elim: conn_inv_eqI)

lemma conn_inv_trace: "conn_inv s \<Longrightarrow> conn_inv (fold step evs s)"
  by (induction evs arbitrary: s) (auto simp: conn_inv_step)

lemma conn_inv_logged_in: "conn_inv (logged_in user room)"
  by (simp add: conn_inv_def logged_in_def initial_call_state_def)


lemma leaveCall_username [simp]: "username (leaveCall s) = username s"
  by (simp add: leaveCall_def Let_def)

lemma startJoin_username [simp]: "username (startJoin media s) = username s"
  by (simp add: startJoin_def Let_def addVideoTile_def updateCount_def split: sum.splits)

lemma connectToPeer_username [simp]: "username (connectToPeer peer room ini ofr s) = username s"
  by (simp add: connectToPeer_def Let_def mk_link_def split: option.splits)

lemma onconnectionstatechange_username [simp]:
  "username (onconnectionstatechange lk cs ofr an s) = username s"
  by (simp add: onconnectionstatechange_def Let_def)

lemma step_username [simp]: "username (step ev s) = username s"
  by (cases ev) (simp_all add: roster_child_added_def roster_child_removed_def)

lemma trace_username [simp]: "username (fold step evs s) = username s"
  by (induction evs arbitrary: s) auto

text \<open>
  C7. A roster add event for the local identity or for an identity that has a connection
  leaves the whole state as it is, and so does \<open>connectToPeer\<close> for an identity that has
  a connection: no connection object is created. In every state the call module reaches
  from a logged-in user by its events (call and end-call buttons, roster events, the
  listeners of any link), the connection map has one entry per identity at most and none
  for the local identity, which these events never change.
\<close>

theorem connection_map_invariant:
  "(peer = username s \<or> map_of (peerConns s) peer \<noteq> None \<longrightarrow> roster_child_added peer ofr s = s)
   \<and> (map_of (peerConns s) peer \<noteq> None \<longrightarrow> connectToPeer peer room ini ofr s = s)
   \<and> distinct (map fst (peerConns (fold step evs (logged_in user r))))
   \<and> username (fold step evs (logged_in user r)) = user
   \<and> user \<notin> fst ` set (peerConns (fold step evs (logged_in user r)))"
proof -
  have "conn_inv (fold step evs (logged_in user r))"
    by (rule conn_inv_trace[OF conn_inv_logged_in])
  moreover have "username (fold step evs (logged_in user r)) = user"
    by (simp add: logged_in_def)
  ultimately show ?thesis
    by (auto simp: conn_inv_def roster_child_added_def connectToPeer_def has_conn_def)
qed

lemma not_inherited_alice: "\<not> inherited (js ''alice'')"
  by (simp add: inherited_def object_proto_keys_def)

lemma sample_call_simps:
  "username sample_call = js ''bob''"
  "peerConns sample_call = [(js ''alice'', 0)]"
  using not_inherited_alice
  by (simp_all add: sample_call_def roster_child_added_def has_conn_def in_call_simps
      in_call_pcs connectToPeer_def Let_def mk_link_def)

theorem connection_map_invariant_witness:
  "map_of (peerConns sample_call) (js ''alice'') \<noteq> None
   \<and> roster_child_added (js ''alice'') (OfferT, js ''o2'') sample_call = sample_call
   \<and> roster_child_added (js ''bob'') (OfferT, js ''o2'') sample_call = sample_call
   \<and> connectToPeer (js ''alice'') (js ''general'') True (OfferT, js ''o2'') sample_call = sample_call"
proof -
  have a: "map_of (peerConns sample_call) (js ''alice'') \<noteq> None"
    by (simp add: sample_call_simps)
  have b: "js ''bob'' = username sample_call"
    by (simp add: sample_call_simps)
  from connection_map_invariant[of "js ''alice''" sample_call "(OfferT, js ''o2'')" "js ''general''" True]
       connection_map_invariant[of "js ''bob''" sample_call "(OfferT, js ''o2'')"] a b
  show ?thesis by blast
qed

section \<open>Joining and leaving\<close>

text \<open>
  C4. When \<open>getUserMedia\<close> rejects, \<open>startJoin\<close> changes nothing but the alerts: the user
  gets the alert with the error's message (or the log-in alert when there is no database
  or no user name). The call room and the local stream stay as they were, nothing is
  written to or subscribed at the database (no participant entry, no roster listener),
  and no tile is added.
\<close>

theorem startJoin_media_failure:
  "startJoin (Inl msg) s =
     s\<lparr>alerts := alerts s @ [if dbReady s \<and> username s \<noteq> [] then MediaError msg else LogInFirst]\<rparr>
   \<and> callRoom (startJoin (Inl msg) s) = callRoom s
   \<and> localStream (startJoin (Inl msg) s) = localStream s
   \<and> db_log (startJoin (Inl msg) s) = db_log s
   \<and> participantsRef (startJoin (Inl msg) s) = participantsRef s
   \<and> tiles (startJoin (Inl msg) s) = tiles s"
  by (simp add: startJoin_def)

lemma remove_rest_more [simp]:
  "screenStream (remove_rest k s) = screenStream s"
  "stoppedTracks (remove_rest k s) = stoppedTracks s"
  "participantsRef (remove_rest k s) = participantsRef s"
  "releasedAnalysers (remove_rest k s) =
     releasedAnalysers s @ (case map_of (audioAnalysers s) k of None \<Rightarrow> [] | Some a \<Rightarrow> [a])"
  "callCount (remove_rest k s) = length (remove1 k (tiles s))"
  by (simp_all add: remove_rest_def release_analyser_def updateCount_def Let_def
      split: option.splits)

lemma pc_upd_more [simp]:
  "screenStream (pc_upd r f s) = screenStream s"
  "stoppedTracks (pc_upd r f s) = stoppedTracks s"
  "participantsRef (pc_upd r f s) = participantsRef s"
  "releasedAnalysers (pc_upd r f s) = releasedAnalysers s"
  by (simp_all add: pc_upd_def)

lemma removePeer_more [simp]:
  "screenStream (removePeer k s) = screenStream s"
  "stoppedTracks (removePeer k s) = stoppedTracks s"
  "participantsRef (removePeer k s) = participantsRef s"
  by (simp_all add: removePeer_def throw_def split: option.splits)

lemma fold_removePeer_more [simp]:
  "screenStream (fold removePeer ks s) = screenStream s"
  "stoppedTracks (fold removePeer ks s) = stoppedTracks s"
  "participantsRef (fold removePeer ks s) = participantsRef s"
  by (induction ks arbitrary: s) auto

lemma uncaught_kept [simp]:
  "uncaught (pc_upd r f s) = uncaught s"
  "uncaught (remove_rest k s) = uncaught s"
  by (simp_all add: pc_upd_def remove_rest_def release_analyser_def updateCount_def Let_def
      split: option.splits)

lemma removePeer_own:
  assumes "map_of (peerConns s) k = Some r"
  shows "pcs (removePeer k s) =
           (pcs s)[r := (pcs s ! r)\<lparr>signalingState := SigClosed, calls := calls (pcs s ! r) @ [Close]\<rparr>]"
    and "iceQueues (removePeer k s) = AList.delete k (iceQueues s)"
    and "audioAnalysers (removePeer k s) = AList.delete k (audioAnalysers s)"
    and "releasedAnalysers (removePeer k s) =
           releasedAnalysers s @ (case map_of (audioAnalysers s) k of None \<Rightarrow> [] | Some a \<Rightarrow> [a])"
    and "callCount (removePeer k s) = length (remove1 k (tiles s))"
    and "uncaught (removePeer k s) = uncaught s"
  using assms by (simp_all add: removePeer_def)

lemma removePeer_closes:
  "map_of (peerConns s) k = Some r \<Longrightarrow> r < length (pcs s) \<Longrightarrow> is_closed (removePeer k s) r"
  by (simp add: is_closed_def removePeer_own)

lemma removePeer_closed_mono:
  assumes "is_closed s r" "r < length (pcs s)"
  shows "is_closed (removePeer k s) r"
proof (cases "map_of (peerConns s) k")
  case None
  then show ?thesis using assms by (simp add: removePeer_def is_closed_def)
next
  case (Some r')
  show ?thesis
    using assms by (cases "r' = r") (simp_all add: is_closed_def removePeer_own[OF Some])
qed

lemma fold_removePeer_closed_mono:
  "is_closed s r \<Longrightarrow> r < length (pcs s) \<Longrightarrow> is_closed (fold removePeer ks s) r"
  by (induction ks arbitrary: s) (auto simp: removePeer_closed_mono)

lemma fold_removePeer_closes:
  "map_of (peerConns s) k = Some r \<Longrightarrow> r < length (pcs s) \<Longrightarrow> k \<in> set ks
     \<Longrightarrow> is_closed (fold removePeer ks s) r"
proof (induction ks arbitrary: s)
  case Nil
  then show ?case by simp
next
  case (Cons k' ks)
  show ?case
  proof (cases "k' = k")
    case True
    with Cons.prems show ?thesis
      by (simp add: fold_removePeer_closed_mono removePeer_closes)
  next
    case False
    with Cons.prems have "map_of (peerConns (removePeer k' s)) k = Some r" "k \<in> set ks"
      by (simp_all add: delete_conv)
    with Cons.IH[of "removePeer k' s"] Cons.prems(2) show ?thesis by simp
  qed
qed

lemma removePeer_queue_gone:
  "map_of (iceQueues s) k = None \<Longrightarrow> map_of (iceQueues (removePeer k' s)) k = None"
  by (auto simp: removePeer_def delete_conv split: option.splits)

lemma fold_removePeer_queue_gone:
  "map_of (iceQueues s) k = None \<Longrightarrow> map_of (iceQueues (fold removePeer ks s)) k = None"
  by (induction ks arbitrary: s) (auto simp: removePeer_queue_gone)

lemma fold_removePeer_queues:
  "map_of (peerConns s) k = Some r \<Longrightarrow> k \<in> set ks
     \<Longrightarrow> map_of (iceQueues (fold removePeer ks s)) k = None"
proof (induction ks arbitrary: s)
  case Nil
  then show ?case by simp
next
  case (Cons k' ks)
  show ?case
  proof (cases "k' = k")
    case True
    with Cons.prems show ?thesis
      by (simp add: fold_removePeer_queue_gone removePeer_own delete_conv)
  next
    case False
    with Cons.prems have "map_of (peerConns (removePeer k' s)) k = Some r" "k \<in> set ks"
      by (simp_all add: delete_conv)
    with Cons.IH[of "removePeer k' s"] show ?thesis by simp
  qed
qed

lemma leaveCall_noop: "\<not> truthy (callRoom s) \<Longrightarrow> leaveCall s = s"
  by (simp add: leaveCall_def)

lemma leaveCall_fields:
  assumes "truthy (callRoom s)"
  shows "localStream (leaveCall s) = None"
    and "screenStream (leaveCall s) = None"
    and "stoppedTracks (leaveCall s) =
           stoppedTracks s @ stream_tracks (localStream s) @ stream_tracks (screenStream s)"
    and "db_log (leaveCall s) =
           db_log s @ [DbRemove (participant_path (template_str (callRoom s)) (username s))]
             @ (case participantsRef s of None \<Rightarrow> [] | Some p \<Rightarrow> [DbOff p])"
    and "participantsRef (leaveCall s) = None"
    and "callRoom (leaveCall s) = None"
    and "pcs (leaveCall s) = pcs (fold removePeer (map fst (peerConns s)) s)"
    and "iceQueues (leaveCall s) = iceQueues (fold removePeer (map fst (peerConns s)) s)"
  using assms by (simp_all add: leaveCall_def Let_def db_do_def)

lemma leaveCall_closes:
  assumes "truthy (callRoom s)" "map_of (peerConns s) k = Some r" "r < length (pcs s)"
  shows "is_closed (leaveCall s) r" "map_of (iceQueues (leaveCall s)) k = None"
proof -
  from assms(2) have k: "k \<in> set (map fst (peerConns s))"
    by (metis map_of_eq_None_iff option.distinct(1) set_map)
  from fold_removePeer_closes[OF assms(2,3) k]
  show "is_closed (leaveCall s) r"
    by (simp add: is_closed_def leaveCall_fields(7)[OF assms(1)])
  from fold_removePeer_queues[OF assms(2) k]
  show "map_of (iceQueues (leaveCall s)) k = None"
    by (simp add: leaveCall_fields(8)[OF assms(1)])
qed

text \<open>
  C5. With no call room set, \<open>leaveCall\<close> changes nothing. With a call room set it empties
  the connection map and the grid, closes every connection of the map and drops its
  candidate queue, stops the tracks of the local and the screen stream and forgets both
  streams, removes the own participant entry, detaches the roster listeners and unsets
  the call room. In both cases a second \<open>leaveCall\<close> right after changes nothing.
\<close>

theorem leaveCall_idempotent:
  "(\<not> truthy (callRoom s) \<longrightarrow> leaveCall s = s)
   \<and> (truthy (callRoom s) \<longrightarrow>
        peerConns (leaveCall s) = [] \<and> tiles (leaveCall s) = []
      \<and> (\<forall>k r. map_of (peerConns s) k = Some r \<and> r < length (pcs s) \<longrightarrow>
             is_closed (leaveCall s) r \<and> map_of (iceQueues (leaveCall s)) k = None)
      \<and> localStream (leaveCall s) = None \<and> screenStream (leaveCall s) = None
      \<and> stoppedTracks (leaveCall s) =
           stoppedTracks s @ stream_tracks (localStream s) @ stream_tracks (screenStream s)
      \<and> db_log (leaveCall s) =
           db_log s @ [DbRemove (participant_path (template_str (callRoom s)) (username s))]
             @ (case participantsRef s of None \<Rightarrow> [] | Some p \<Rightarrow> [DbOff p])
      \<and> participantsRef (leaveCall s) = None \<and> callRoom (leaveCall s) = None)
   \<and> leaveCall (leaveCall s) = leaveCall s"
proof (cases "truthy (callRoom s)")
  case False
  then show ?thesis by (simp add: leaveCall_noop)
next
  case True
  have again: "leaveCall (leaveCall s) = leaveCall s"
    by (rule leaveCall_noop) (simp add: leaveCall_fields(6)[OF True])
  have cl: "\<forall>k r. map_of (peerConns s) k = Some r \<and> r < length (pcs s) \<longrightarrow>
             is_closed (leaveCall s) r \<and> map_of (iceQueues (leaveCall s)) k = None"
    using leaveCall_closes[OF True] by blast
  have rest: "peerConns (leaveCall s) = [] \<and> tiles (leaveCall s) = []
      \<and> localStream (leaveCall s) = None \<and> screenStream (leaveCall s) = None
      \<and> stoppedTracks (leaveCall s) =
           stoppedTracks s @ stream_tracks (localStream s) @ stream_tracks (screenStream s)
      \<and> db_log (leaveCall s) =
           db_log s @ [DbRemove (participant_path (template_str (callRoom s)) (username s))]
             @ (case participantsRef s of None \<Rightarrow> [] | Some p \<Rightarrow> [DbOff p])
      \<and> participantsRef (leaveCall s) = None \<and> callRoom (leaveCall s) = None"
    using True by (simp add: leaveCall_peerConns leaveCall_tiles leaveCall_fields)
  from True again cl rest show ?thesis by blast
qed

lemma sample_call_more:
  "callRoom sample_call = Some (js ''general'')"
  "pcs sample_call = [\<lparr>signalingState = SigHaveLocalOffer, remoteDescription = None,
       currentRemoteDescription = None,
       calls = [AddTrack (AudioTrack, 0), AddTrack (VideoTrack, 1), CreateOffer False,
                SetLocalDescription (OfferT, js ''o1'')]\<rparr>]"
  "tiles sample_call = [js ''__local__'', js ''alice'']"
  "iceQueues sample_call = [(js ''alice'', 0)]"
  "participantsRef sample_call = Some (js ''cs1/calls/general/participants'')"
  "localStream sample_call = Some camera"
  "screenStream sample_call = None"
  "stoppedTracks sample_call = []"
  "arrays sample_call = [[]]"
  "stopped sample_call = []"
  "uncaught sample_call = []"
  using not_inherited_alice
  by (simp_all add: sample_call_def roster_child_added_def has_conn_def in_call_simps
      in_call_pcs connectToPeer_def Let_def mk_link_def
      in_call_def logged_in_def initial_call_state_def startJoin_def 
      addVideoTile_def updateCount_def db_do_def addPeerTile_def local_tile_def pc_call_def
      pc_upd_def new_pc_def set_local_def participants_path_def DB_ROOT_def js_gt_def camera_def)

theorem leaveCall_idempotent_witness:
  "truthy (callRoom sample_call)
   \<and> peerConns (leaveCall sample_call) = [] \<and> tiles (leaveCall sample_call) = []
   \<and> is_closed (leaveCall sample_call) 0
   \<and> map_of (iceQueues (leaveCall sample_call)) (js ''alice'') = None
   \<and> localStream (leaveCall sample_call) = None
   \<and> stoppedTracks (leaveCall sample_call) = camera
   \<and> drop (length (db_log sample_call)) (db_log (leaveCall sample_call)) =
        [DbRemove (js ''cs1/calls/general/participants/bob''),
         DbOff (js ''cs1/calls/general/participants'')]
   \<and> callRoom (leaveCall sample_call) = None
   \<and> leaveCall (leaveCall sample_call) = leaveCall sample_call
   \<and> \<not> truthy (callRoom (logged_in (js ''bob'') (js ''general'')))
   \<and> leaveCall (logged_in (js ''bob'') (js ''general'')) = logged_in (js ''bob'') (js ''general'')"
proof -
  have t: "truthy (callRoom sample_call)"
    by (simp add: sample_call_more)
  have a: "map_of (peerConns sample_call) (js ''alice'') = Some 0 \<and> 0 < length (pcs sample_call)"
    by (simp add: sample_call_simps sample_call_more)
  have n: "\<not> truthy (callRoom (logged_in (js ''bob'') (js ''general'')))"
    by (simp add: logged_in_def initial_call_state_def)
  from leaveCall_idempotent[of sample_call] t a
  have "peerConns (leaveCall sample_call) = [] \<and> tiles (leaveCall sample_call) = []
   \<and> is_closed (leaveCall sample_call) 0
   \<and> map_of (iceQueues (leaveCall sample_call)) (js ''alice'') = None
   \<and> localStream (leaveCall sample_call) = None
   \<and> stoppedTracks (leaveCall sample_call) = camera
   \<and> drop (length (db_log sample_call)) (db_log (leaveCall sample_call)) =
        [DbRemove (js ''cs1/calls/general/participants/bob''),
         DbOff (js ''cs1/calls/general/participants'')]
   \<and> callRoom (leaveCall sample_call) = None
   \<and> leaveCall (leaveCall sample_call) = leaveCall sample_call"
    by (simp add: sample_call_more sample_call_simps stream_tracks_def participant_path_def
        participants_path_def DB_ROOT_def is_closed_def)
  with leaveCall_idempotent[of "logged_in (js ''bob'') (js ''general'')"] t n
  show ?thesis by blast
qed

section \<open>Removing a peer\<close>

lemma close_count_update:
  assumes "r < length ps"
  shows "sum_list (map f (ps[r := p])) + f (ps ! r) = sum_list (map f ps) + (f p :: nat)"
  using assms
proof (induction ps arbitrary: r)
  case Nil
  then show ?case by simp
next
  case (Cons a ps)
  then show ?case by (cases r) (auto simp: add.assoc)
qed

lemma removePeer_again:
  assumes "map_of (peerConns s) P = Some r" "distinct (tiles s)" "\<not> inherited P"
  shows "removePeer P (removePeer P s) = removePeer P s"
proof -
  let ?s = "removePeer P s"
  have n: "map_of (peerConns ?s) P = None"
    by (simp add: delete_conv)
  have t: "tiles ?s = remove1 P (tiles s)"
    using assms(1) by (rule removePeer_tiles_own)
  have tt: "remove1 P (tiles ?s) = tiles ?s"
    unfolding t using assms(2) by (simp add: remove1_idem)
  have q: "AList.delete P (iceQueues ?s) = iceQueues ?s"
    by (simp add: removePeer_own(2)[OF assms(1)] delete_idem)
  have an: "map_of (audioAnalysers ?s) P = None"
    by (simp add: removePeer_own(3)[OF assms(1)] delete_conv)
  have c: "callCount ?s = length (tiles ?s)"
    by (simp add: removePeer_own(5)[OF assms(1)] t)
  have "removePeer P ?s = remove_rest P ?s"
    using n assms(3) by (simp add: removePeer_def)
  also have "\<dots> = ?s"
    using q an c tt
    by (simp add: remove_rest_def release_analyser_def updateCount_def Let_def)
  finally show ?thesis .
qed

lemma removePeer_effect:
  assumes "map_of (peerConns s) P = Some r" and "r < length (pcs s)"
    and "P \<in> set (tiles s)" and "distinct (tiles s)" and "\<not> inherited P"
  shows "pcs (removePeer P s) =
           (pcs s)[r := (pcs s ! r)\<lparr>signalingState := SigClosed, calls := calls (pcs s ! r) @ [Close]\<rparr>]
       \<and> close_count (removePeer P s) = close_count s + 1
       \<and> tiles (removePeer P s) = remove1 P (tiles s)
       \<and> length (tiles (removePeer P s)) + 1 = length (tiles s)
       \<and> P \<notin> set (tiles (removePeer P s))
       \<and> map_of (peerConns (removePeer P s)) P = None
       \<and> map_of (iceQueues (removePeer P s)) P = None
       \<and> map_of (audioAnalysers (removePeer P s)) P = None
       \<and> releasedAnalysers (removePeer P s) =
           releasedAnalysers s @ (case map_of (audioAnalysers s) P of None \<Rightarrow> [] | Some a \<Rightarrow> [a])
       \<and> uncaught (removePeer P s) = uncaught s
       \<and> removePeer P (removePeer P s) = removePeer P s
       \<and> close_count (removePeer P (removePeer P s)) = close_count s + 1"
proof -
  note own = removePeer_own[OF assms(1)]
  have cc: "close_count (removePeer P s) = close_count s + 1"
    unfolding close_count_def own(1)
    using close_count_update[OF assms(2), of "\<lambda>p. count_list (calls p) Close"
        "(pcs s ! r)\<lparr>signalingState := SigClosed, calls := calls (pcs s ! r) @ [Close]\<rparr>"]
    by simp
  have t: "tiles (removePeer P s) = remove1 P (tiles s)"
    using assms(1) by (rule removePeer_tiles_own)
  have tl: "length (tiles (removePeer P s)) + 1 = length (tiles s)"
    unfolding t using assms(3) by (simp add: length_remove1) (cases "tiles s"; simp)
  have tn: "P \<notin> set (tiles (removePeer P s))"
    unfolding t using assms(4) by simp
  have again: "removePeer P (removePeer P s) = removePeer P s"
    using assms(1,4,5) by (rule removePeer_again)
  show ?thesis
    using own(1) cc t tl tn again 
    by (simp add: own(2,3,4,6) delete_conv)
qed

lemma sample_link_simps:
  "lk_peer sample_link = js ''alice''"
  "lk_pc sample_link = 0"
  "lk_initiator sample_link = True"
  "lk_path sample_link = js ''cs1/calls/general/connections/bob___alice''"
  by (simp_all add: sample_link_def mk_link_def in_call_pcs in_call_simps conn_path_def DB_ROOT_def)

lemma sample_connected_simps:
  "peerConns sample_connected = [(js ''alice'', 0)]"
  "pcs sample_connected = pcs sample_call"
  "tiles sample_connected = [js ''__local__'', js ''alice'']"
  "audioAnalysers sample_connected = [(js ''alice'', 7)]"
  "releasedAnalysers sample_connected = []"
  using not_inherited_alice
  by (simp_all add: sample_connected_def onconnectionstatechange_def sample_link_simps
      sample_call_simps sample_call_more watchAudioLevel_def sample_call_def
      roster_child_added_def has_conn_def in_call_simps
      in_call_pcs connectToPeer_def Let_def mk_link_def
      in_call_def logged_in_def initial_call_state_def startJoin_def
      addVideoTile_def updateCount_def db_do_def addPeerTile_def local_tile_def pc_call_def
      pc_upd_def new_pc_def set_local_def js_gt_def)

text \<open>
  C6. In a state the call module reaches from a logged-in user by its events, for a peer
  that has a connection: \<open>removePeer\<close> calls \<open>close()\<close> on that one connection and on no
  other, removes that one tile, drops the peer's entries in the connection map, the
  candidate queues and the audio monitors, and releases the monitor if there was one.
  Nothing is thrown. A second \<open>removePeer\<close> right after changes nothing: still one
  \<open>close()\<close> in all.
\<close>

theorem removePeer_once:
  assumes "s = fold step evs (logged_in user room)" and "map_of (peerConns s) P = Some r"
  shows "pcs (removePeer P s) =
           (pcs s)[r := (pcs s ! r)\<lparr>signalingState := SigClosed, calls := calls (pcs s ! r) @ [Close]\<rparr>]
       \<and> close_count (removePeer P s) = close_count s + 1
       \<and> tiles (removePeer P s) = remove1 P (tiles s)
       \<and> length (tiles (removePeer P s)) + 1 = length (tiles s)
       \<and> P \<notin> set (tiles (removePeer P s))
       \<and> map_of (peerConns (removePeer P s)) P = None
       \<and> map_of (iceQueues (removePeer P s)) P = None
       \<and> map_of (audioAnalysers (removePeer P s)) P = None
       \<and> releasedAnalysers (removePeer P s) =
           releasedAnalysers s @ (case map_of (audioAnalysers s) P of None \<Rightarrow> [] | Some a \<Rightarrow> [a])
       \<and> uncaught (removePeer P s) = uncaught s
       \<and> removePeer P (removePeer P s) = removePeer P s
       \<and> close_count (removePeer P (removePeer P s)) = close_count s + 1"
proof -
  have "conn_inv s"
    unfolding assms(1) by (rule conn_inv_trace[OF conn_inv_logged_in])
  moreover from assms(2) have "(P, r) \<in> set (peerConns s)"
    by (rule map_of_SomeD)
  ultimately have "r < length (pcs s)" "P \<in> set (tiles s)" "distinct (tiles s)" "\<not> inherited P"
    unfolding conn_inv_def list_all_iff by auto
  then show ?thesis
    by (rule removePeer_effect[OF assms(2)])
qed

lemma sample_connected_reached:
  "sample_connected =
     fold step [CallButton (Inr camera), RosterAdded (js ''alice'') (OfferT, js ''o1''),
                ConnectionStateChange sample_link CsConnected (OfferT, js ''o9'') (Some 7)]
       (logged_in (js ''bob'') (js ''general''))"
  by (simp add: sample_connected_def sample_call_def in_call_def logged_in_def
      initial_call_state_def)

theorem removePeer_once_witness:
  "map_of (peerConns sample_connected) (js ''alice'') = Some 0
   \<and> close_count (removePeer (js ''alice'') sample_connected) = close_count sample_connected + 1
   \<and> tiles (removePeer (js ''alice'') sample_connected) = [js ''__local__'']
   \<and> peerConns (removePeer (js ''alice'') sample_connected) = []
   \<and> map_of (iceQueues (removePeer (js ''alice'') sample_connected)) (js ''alice'') = None
   \<and> map_of (audioAnalysers (removePeer (js ''alice'') sample_connected)) (js ''alice'') = None
   \<and> releasedAnalysers (removePeer (js ''alice'') sample_connected) = [7]
   \<and> removePeer (js ''alice'') (removePeer (js ''alice'') sample_connected)
       = removePeer (js ''alice'') sample_connected"
proof -
  have h: "map_of (peerConns sample_connected) (js ''alice'') = Some 0"
    by (simp add: sample_connected_simps)
  from removePeer_once[OF sample_connected_reached h] h
  show ?thesis
    by (simp add: sample_connected_simps)
qed

section \<open>Candidate buffering\<close>

lemma ice_of_calls_append [simp]: "ice_of_calls (xs @ ys) = ice_of_calls xs @ ice_of_calls ys"
  by (induction xs rule: ice_of_calls.induct) auto

lemma ice_of_calls_map [simp]: "ice_of_calls (map AddIceCandidate q) = q"
  by (induction q) auto

lemma arrivals_Nil [simp]: "arrivals lk [] s = s"
  by (simp add: arrivals_def)

lemma arrivals_Cons [simp]: "arrivals lk (c # cs) s = arrivals lk cs (ice_child_added lk (Some c) s)"
  by (simp add: arrivals_def)

lemma safeAddIce_pcs:
  "pcs (safeAddIce r c s) = (pcs s)[r := (pcs s ! r)\<lparr>calls := calls (pcs s ! r) @ [AddIceCandidate c]\<rparr>]"
  by (simp add: safeAddIce_def pc_call_def pc_upd_def)

lemma fold_safeAddIce_pcs:
  "pcs (fold (safeAddIce r) q s) =
     (pcs s)[r := (pcs s ! r)\<lparr>calls := calls (pcs s ! r) @ map AddIceCandidate q\<rparr>]"
proof (induction q arbitrary: s)
  case Nil
  show ?case by simp
next
  case (Cons c q)
  have "pcs (fold (safeAddIce r) (c # q) s) = pcs (fold (safeAddIce r) q (safeAddIce r c s))"
    by simp
  also have "\<dots> = (pcs (safeAddIce r c s))[r := (pcs (safeAddIce r c s) ! r)
      \<lparr>calls := calls (pcs (safeAddIce r c s) ! r) @ map AddIceCandidate q\<rparr>]"
    by (rule Cons.IH)
  also have "\<dots> = (pcs s)[r := (pcs s ! r)\<lparr>calls := calls (pcs s ! r) @ map AddIceCandidate (c # q)\<rparr>]"
    by (cases "r < length (pcs s)") (simp_all add: safeAddIce_pcs list_update_beyond)
  finally show ?case .
qed

lemma arrivals_length [simp]: "length (pcs (arrivals lk cs s)) = length (pcs s)"
  by (induction cs arbitrary: s) auto

lemma safeAddIce_heap [simp]:
  "arrays (safeAddIce r c s) = arrays s"
  "stopped (safeAddIce r c s) = stopped s"
  by (simp_all add: safeAddIce_def pc_call_def pc_upd_def)

lemma fold_safeAddIce_heap [simp]:
  "arrays (fold (safeAddIce r) q s) = arrays s"
  "stopped (fold (safeAddIce r) q s) = stopped s"
  by (induction q arbitrary: s) auto

text \<open>
  While the connection of a link has no remote description, the candidates that arrive
  at its listener are pushed, in arrival order, onto the array that the peer's name
  leads to, and none is handed to the connection.
\<close>

lemma arrivals_queued:
  assumes "remoteDescription (pcs s ! lk_pc lk) = None"
    and "map_of (iceQueues s) (lk_peer lk) = Some a" and "a < length (arrays s)"
  shows "arrivals lk cs s = s\<lparr>arrays := (arrays s)[a := arrays s ! a @ cs]\<rparr>"
  using assms
proof (induction cs arbitrary: s)
  case Nil
  then show ?case by simp
next
  case (Cons c cs)
  let ?s = "s\<lparr>arrays := (arrays s)[a := arrays s ! a @ [c]]\<rparr>"
  have st: "ice_child_added lk (Some c) s = ?s"
    using Cons.prems by (simp add: ice_child_added_def)
  have "arrivals lk cs ?s = ?s\<lparr>arrays := (arrays ?s)[a := arrays ?s ! a @ cs]\<rparr>"
    by (rule Cons.IH) (simp_all add: Cons.prems)
  then show ?case using Cons.prems(3) by (simp add: st)
qed

text \<open>Once it has a remote description, they go to \<open>addIceCandidate\<close> directly.\<close>

lemma arrivals_direct:
  assumes "remoteDescription (pcs s ! lk_pc lk) \<noteq> None" "lk_pc lk < length (pcs s)"
  shows "arrivals lk cs s = fold (safeAddIce (lk_pc lk)) cs s"
  using assms
proof (induction cs arbitrary: s)
  case Nil
  show ?case by simp
next
  case (Cons c cs)
  have st: "ice_child_added lk (Some c) s = safeAddIce (lk_pc lk) c s"
    using Cons.prems by (simp add: ice_child_added_def)
  have "arrivals lk cs (safeAddIce (lk_pc lk) c s) = fold (safeAddIce (lk_pc lk)) cs (safeAddIce (lk_pc lk) c s)"
    by (rule Cons.IH) (simp_all add: Cons.prems safeAddIce_pcs)
  then show ?case by (simp add: st)
qed

lemma queued_result:
  assumes "remoteDescription (pcs s ! lk_pc lk) = None"
    and "map_of (iceQueues s) (lk_peer lk) = Some a" and "a < length (arrays s)"
  shows "ice_queue (arrivals lk cs s) (lk_peer lk) = Some (arrays s ! a @ cs)"
    and "pcs (arrivals lk cs s) = pcs s"
  using assms(2,3) by (simp_all add: arrivals_queued[OF assms] ice_queue_def)

lemma direct_result:
  assumes "remoteDescription (pcs s ! lk_pc lk) \<noteq> None" "lk_pc lk < length (pcs s)"
  shows "ice_applied (arrivals lk cs s) (lk_pc lk) = ice_applied s (lk_pc lk) @ cs"
    and "ice_queue (arrivals lk cs s) (lk_peer lk) = ice_queue s (lk_peer lk)"
    and "remoteDescription (pcs (arrivals lk cs s) ! lk_pc lk) = remoteDescription (pcs s ! lk_pc lk)"
  using assms
  by (simp_all add: arrivals_direct ice_queue_def ice_applied_def fold_safeAddIce_pcs)

lemma pc_closed_await [simp]: "pc_closed (await t s) r = pc_closed s r"
  by (simp add: pc_closed_def await_def)

lemma resume_awaited:
  assumes "stopped s = []" and "\<And>r. awaited_pc t = Some r \<Longrightarrow> \<not> pc_closed s r"
  shows "resume 0 ans (await t s) = continue t ans s"
proof -
  have tk: "stopped (await t s) = [t]"
    using assms(1) by simp
  have e: "(await t s)\<lparr>stopped := []\<rparr> = s"
    using assms(1) by (simp add: await_def)
  show ?thesis
    unfolding resume_def tk
    using assms(2) by (simp add: e split: option.splits)
qed

lemma flush_end_result:
  assumes "lk_peer lk \<noteq> js ''__proto__''"
  shows "ice_queue (flush_end lk s) (lk_peer lk) = Some []"
    and "stopped (flush_end lk s) = stopped s"
    and "ice_applied (flush_end lk s) r = ice_applied s r"
  using assms by (simp_all add: flush_end_def ice_queue_def ice_applied_def obj_assign_def update_conv')

lemma flush_runs:
  assumes "lk_pc lk < length (pcs s)" "\<not> pc_closed s (lk_pc lk)" "stopped s = []"
    and "n = length (arrays s ! a) - i" "i \<le> length (arrays s ! a)"
    and "lk_peer lk \<noteq> js ''__proto__''"
  shows "ice_applied (fold step (replicate n (Settled 0 ans)) (flush_next lk a i s)) (lk_pc lk)
           = ice_applied s (lk_pc lk) @ drop i (arrays s ! a)
       \<and> ice_queue (fold step (replicate n (Settled 0 ans)) (flush_next lk a i s)) (lk_peer lk) = Some []
       \<and> stopped (fold step (replicate n (Settled 0 ans)) (flush_next lk a i s)) = []
       \<and> remoteDescription (pcs (fold step (replicate n (Settled 0 ans)) (flush_next lk a i s)) ! lk_pc lk)
           = remoteDescription (pcs s ! lk_pc lk)
       \<and> length (pcs (fold step (replicate n (Settled 0 ans)) (flush_next lk a i s)))
           = length (pcs s)"
  using assms
proof (induction n arbitrary: i s)
  case 0
  then have e: "flush_next lk a i s = flush_end lk s"
    by (simp add: flush_next_def)
  show ?case
    using 0 by (simp add: e flush_end_result)
next
  case (Suc n)
  let ?c = "arrays s ! a ! i"
  let ?t = "safeAddIce (lk_pc lk) ?c s"
  from Suc.prems have lt: "i < length (arrays s ! a)" by simp
  have f: "flush_next lk a i s = await (AwaitAddIce lk a (Suc i)) ?t"
    using lt Suc.prems(2) by (simp add: flush_next_def)
  have op: "\<not> pc_closed ?t (lk_pc lk)"
    using Suc.prems(1,2) by (simp add: pc_closed_def safeAddIce_pcs)
  have tk: "stopped ?t = []" using Suc.prems(3) by simp
  have "resume 0 ans (await (AwaitAddIce lk a (Suc i)) ?t)
          = continue (AwaitAddIce lk a (Suc i)) ans ?t"
    by (rule resume_awaited[OF tk]) (use op in simp)
  then have rs: "resume 0 ans (await (AwaitAddIce lk a (Suc i)) ?t) = flush_next lk a (Suc i) ?t"
    by simp
  have ih: "ice_applied (fold step (replicate n (Settled 0 ans)) (flush_next lk a (Suc i) ?t)) (lk_pc lk)
           = ice_applied ?t (lk_pc lk) @ drop (Suc i) (arrays ?t ! a)
       \<and> ice_queue (fold step (replicate n (Settled 0 ans)) (flush_next lk a (Suc i) ?t)) (lk_peer lk) = Some []
       \<and> stopped (fold step (replicate n (Settled 0 ans)) (flush_next lk a (Suc i) ?t)) = []
       \<and> remoteDescription (pcs (fold step (replicate n (Settled 0 ans)) (flush_next lk a (Suc i) ?t)) ! lk_pc lk)
           = remoteDescription (pcs ?t ! lk_pc lk)
       \<and> length (pcs (fold step (replicate n (Settled 0 ans)) (flush_next lk a (Suc i) ?t)))
           = length (pcs ?t)"
    using Suc.prems lt by (intro Suc.IH op tk) simp_all
  have ap: "ice_applied ?t (lk_pc lk) = ice_applied s (lk_pc lk) @ [?c]"
    using Suc.prems(1) by (simp add: ice_applied_def safeAddIce_pcs)
  have rd: "remoteDescription (pcs ?t ! lk_pc lk) = remoteDescription (pcs s ! lk_pc lk)"
    using Suc.prems(1) by (simp add: safeAddIce_pcs)
  show ?case
    using ih by (simp add: f rs ap rd Cons_nth_drop_Suc[OF lt])
qed


text \<open>
  A link whose connection is open and has no remote description, with no handler
  stopped. Candidates that arrive are queued in arrival order. When the answer arrives
  and the promises of the handler are fulfilled one after the other with no other event
  in between, the queued candidates are handed to \<open>addIceCandidate\<close> in queue order, each
  once, and a new empty queue is put under the peer's name. Candidates that arrive
  afterwards go to \<open>addIceCandidate\<close> directly.
\<close>

lemma buffered_then_flushed:
  assumes "lk_pc lk < length (pcs s)" and "\<not> pc_closed s (lk_pc lk)"
    and "remoteDescription (pcs s ! lk_pc lk) = None"
    and "currentRemoteDescription (pcs s ! lk_pc lk) = None"
    and "map_of (iceQueues s) (lk_peer lk) = Some a" and "a < length (arrays s)"
    and "stopped s = []" and "lk_peer lk \<noteq> js ''__proto__''"
    and "s1 = arrivals lk before s"
    and "s2 = fold step (AnswerValue lk (Some d)
                 # replicate (Suc (length (arrays s ! a @ before))) (Settled 0 ans)) s1"
  shows "ice_queue s1 (lk_peer lk) = Some (arrays s ! a @ before)"
    and "ice_applied s1 (lk_pc lk) = ice_applied s (lk_pc lk)"
    and "ice_applied s2 (lk_pc lk) = ice_applied s (lk_pc lk) @ arrays s ! a @ before"
    and "ice_queue s2 (lk_peer lk) = Some []"
    and "ice_applied (arrivals lk after s2) (lk_pc lk)
           = ice_applied s (lk_pc lk) @ arrays s ! a @ before @ after"
    and "ice_queue (arrivals lk after s2) (lk_peer lk) = Some []"
proof -
  let ?r = "lk_pc lk"
  let ?q = "arrays s ! a @ before"
  note q1 = queued_result[OF assms(3,5,6), of before]
  have s1: "s1 = s\<lparr>arrays := (arrays s)[a := ?q]\<rparr>"
    unfolding assms(9) by (rule arrivals_queued[OF assms(3,5,6)])
  show a1: "ice_queue s1 (lk_peer lk) = Some ?q"
    unfolding assms(9) by (rule q1(1))
  show b1: "ice_applied s1 ?r = ice_applied s ?r"
    unfolding assms(9) by (simp add: ice_applied_def q1(2))
  let ?t = "pc_call ?r [SetRemoteDescription d] s1"
  have av: "step (AnswerValue lk (Some d)) s1 = await (AwaitSetRemoteAnswer lk d) ?t"
    using assms(2,4) by (simp add: s1 on_answer_value_def call_and_await_def pc_closed_def)
  let ?u = "pc_upd ?r (remote_applied d) ?t"
  have tk: "stopped ?t = []"
    using assms(7) by (simp add: s1 pc_call_def pc_upd_def)
  have op: "\<not> pc_closed ?t ?r"
    using assms(1,2) by (simp add: s1 pc_closed_def pc_call_def pc_upd_def)
  have "resume 0 ans (await (AwaitSetRemoteAnswer lk d) ?t)
          = continue (AwaitSetRemoteAnswer lk d) ans ?t"
    by (rule resume_awaited[OF tk]) (use op in simp)
  then have rs: "resume 0 ans (await (AwaitSetRemoteAnswer lk d) ?t) = flushIceQueue lk ?u"
    by simp
  have fl: "flushIceQueue lk ?u = flush_next lk a 0 ?u"
    using assms(5) by (simp add: flushIceQueue_def s1)
  have u: "?r < length (pcs ?u)" "\<not> pc_closed ?u ?r" "stopped ?u = []" "arrays ?u ! a = ?q"
    "remoteDescription (pcs ?u ! ?r) = Some d" "ice_applied ?u ?r = ice_applied s ?r"
    using assms(1,6,7)
    by (simp_all add: s1 pc_closed_def pc_call_def pc_upd_def remote_applied_def ice_applied_def
        split: sdp_type.splits)
  have s2: "s2 = fold step (replicate (length ?q) (Settled 0 ans)) (flush_next lk a 0 ?u)"
  proof -
    have "s2 = fold step (replicate (length ?q) (Settled 0 ans))
                 (step (Settled 0 ans) (step (AnswerValue lk (Some d)) s1))"
      unfolding assms(10) by (simp only: replicate_Suc fold_simps o_apply)
    also have "step (Settled 0 ans) (step (AnswerValue lk (Some d)) s1) = flush_next lk a 0 ?u"
      unfolding av by (simp add: rs fl)
    finally show ?thesis .
  qed
  from flush_runs[OF u(1,2,3) _ _ assms(8), of "length ?q" a 0 ans] u(4)
  have r: "ice_applied s2 ?r = ice_applied ?u ?r @ ?q" "ice_queue s2 (lk_peer lk) = Some []"
    "remoteDescription (pcs s2 ! ?r) = remoteDescription (pcs ?u ! ?r)"
    "length (pcs s2) = length (pcs ?u)"
    unfolding s2 by simp_all
  show a2: "ice_applied s2 ?r = ice_applied s ?r @ ?q"
    using r(1) u(6) by simp
  show b2: "ice_queue s2 (lk_peer lk) = Some []"
    by (rule r(2))
  have l2: "?r < length (pcs s2)"
    using r(4) u(1) by simp
  have rd: "remoteDescription (pcs s2 ! ?r) \<noteq> None"
    using r(3) u(5) by simp
  note d3 = direct_result[OF rd l2, of after]
  show "ice_applied (arrivals lk after s2) ?r = ice_applied s ?r @ arrays s ! a @ before @ after"
    using d3(1) a2 by simp
  show "ice_queue (arrivals lk after s2) (lk_peer lk) = Some []"
    using d3(2) b2 by simp
qed

lemmas run_defs =
  logged_in_def initial_call_state_def startJoin_def Let_def addVideoTile_def updateCount_def
  db_do_def roster_child_added_def roster_child_removed_def has_conn_def connectToPeer_def
  mk_link_def addPeerTile_def local_tile_def pc_call_def pc_upd_def new_pc_def set_local_def
  js_gt_def camera_def removePeer_def remove_rest_def release_analyser_def inherited_def
  object_proto_keys_def ice_child_added_def safeAddIce_def on_answer_value_def
  call_and_await_def await_def pc_closed_def throw_def resume_def flushIceQueue_def
  flush_next_def flush_end_def obj_assign_def remote_applied_def local_applied_def
  sample_link_def in_call_def sample_call_def ice_queue_def ice_applied_def is_closed_def

text \<open>
  In the sample call, the candidates queued before the answer are handed to
  \<open>addIceCandidate\<close> in queue order once the answer has been applied, and one that
  arrives after the flush follows them. One that arrives while the flush waits for
  \<open>addIceCandidate\<close> finds the remote description set and overtakes the rest of the
  queue.
\<close>

lemma sample_flush:
  "ice_queue (fold step (take 2 flush_then_arrival) sample_call) (js ''alice'') = Some [11, 12]"
  "ice_applied (fold step (take 2 flush_then_arrival) sample_call) 0 = []"
  "ice_applied (fold step (take 6 flush_then_arrival) sample_call) 0 = [11, 12]"
  "ice_queue (fold step (take 6 flush_then_arrival) sample_call) (js ''alice'') = Some []"
  "ice_applied (fold step flush_then_arrival sample_call) 0 = [11, 12, 13]"
  "ice_queue (fold step flush_then_arrival sample_call) (js ''alice'') = Some []"
  "ice_applied (fold step arrival_in_flush sample_call) 0 = [11, 13, 12]"
  "ice_queue (fold step arrival_in_flush sample_call) (js ''alice'') = Some []"
  by (simp_all add: flush_then_arrival_def arrival_in_flush_def run_defs)

text \<open>
  The responder flushes only when it has published its answer: a candidate that arrives
  after \<open>setRemoteDescription\<close> has been fulfilled is handed to \<open>addIceCandidate\<close> before
  the queued ones.
\<close>

lemma responder_flush:
  "ice_applied (fold step responder_run responder_call) 0 = [23, 21, 22]"
  "ice_queue (fold step responder_run responder_call) (js ''bob'') = Some []"
  "sdp_writes (new_ops responder_call (fold step responder_run responder_call))
     = [(js ''cs1/calls/general/connections/bob___alice/answer'', (AnswerT, js ''a1''))]"
  by (simp_all add: responder_run_def responder_call_def responder_link_def run_defs
      on_offer_value_def new_ops_def answer_path_def conn_path_def DB_ROOT_def)

lemma rejoin_link_simps:
  "lk_peer rejoin_link = js ''alice''"
  "lk_pc rejoin_link = 1"
  "lk_initiator rejoin_link"
  "lk_path rejoin_link = lk_path sample_link"
  by (simp_all add: rejoin_link_def run_defs)

text \<open>
  C3 fails when a peer leaves the call before its answer has come and joins again.
  \<open>removePeer\<close> closes the first connection and deletes the queue, but the listeners of
  the first link stay attached: video.js detaches the roster listeners only. The second
  \<open>connectToPeer\<close> puts a new queue under the peer's name and attaches its own listeners
  at the same paths. The one candidate the peer then publishes reaches both listeners;
  neither connection has a remote description, so both push it onto the queue. When the
  answer has been applied, the flush hands that candidate to \<open>addIceCandidate\<close> of the
  second connection twice.
\<close>

theorem rejoin_applies_candidate_twice:
  "lk_pc sample_link = 0 \<and> lk_pc rejoin_link = 1 \<and> lk_path rejoin_link = lk_path sample_link
   \<and> is_closed rejoined 0
   \<and> peerConns rejoined = [(js ''alice'', 1)]
   \<and> ice_queue rejoined (js ''alice'') = Some [11, 11]
   \<and> ice_applied rejoined 1 = []
   \<and> ice_applied (fold step rejoin_answer rejoined) 1 = [11, 11]
   \<and> ice_queue (fold step rejoin_answer rejoined) (js ''alice'') = Some []
   \<and> stopped (fold step rejoin_answer rejoined) = []"
  by (simp add: rejoined_def rejoin_arrivals_def rejoin_answer_def rejoin_link_def run_defs)

section \<open>Recovery after a failure\<close>

lemma sum_list_update_same:
  assumes "f p = (f (ps ! r) :: nat)"
  shows "sum_list (map f (ps[r := p])) = sum_list (map f ps)"
proof (cases "r < length ps")
  case True
  from close_count_update[OF True, of f p] assms show ?thesis by simp
next
  case False
  then show ?thesis by (simp add: list_update_beyond)
qed

lemma restart_count_removePeer [simp]: "restart_count (removePeer k s) = restart_count s"
proof (cases "map_of (peerConns s) k")
  case None
  then show ?thesis by (simp add: restart_count_def removePeer_def)
next
  case (Some r)
  show ?thesis
    unfolding restart_count_def removePeer_own(1)[OF Some]
    by (rule sum_list_update_same) simp
qed

lemma new_ops_same: "db_log s' = db_log s \<Longrightarrow> new_ops s s' = []"
  by (simp add: new_ops_def)

lemma failed_step:
  "onconnectionstatechange lk CsFailed ofr an s =
     (if lk_initiator lk \<and> signalingState (pcs s ! lk_pc lk) \<noteq> SigClosed
      then ice_restart lk ofr s else s)"
  by (simp add: onconnectionstatechange_def)

lemma ice_restart_result:
  assumes "lk_pc lk < length (pcs s)"
  shows "calls (pcs (ice_restart lk ofr s) ! lk_pc lk) =
           calls (pcs s ! lk_pc lk) @ [RestartIce, CreateOffer True, SetLocalDescription ofr]"
    and "restart_count (ice_restart lk ofr s) = restart_count s + 1"
    and "new_ops s (ice_restart lk ofr s) = [DbSet (offer_path lk) (SdpVal ofr)]"
    and "signalingState (pcs (ice_restart lk ofr s) ! lk_pc lk) \<noteq> SigClosed"
proof -
  let ?p = "pcs s ! lk_pc lk"
  have p: "pcs (ice_restart lk ofr s) =
      (pcs s)[lk_pc lk := set_local ofr (?p\<lparr>calls := calls ?p @ [RestartIce, CreateOffer True]\<rparr>)]"
    using assms by (simp add: ice_restart_def pc_call_def pc_upd_def db_do_def)
  show "calls (pcs (ice_restart lk ofr s) ! lk_pc lk) =
           calls ?p @ [RestartIce, CreateOffer True, SetLocalDescription ofr]"
    unfolding p using assms by (simp add: set_local_def split: sdp_type.splits)
  show "restart_count (ice_restart lk ofr s) = restart_count s + 1"
    unfolding restart_count_def p
    using close_count_update[OF assms, of "\<lambda>p. count_list (calls p) RestartIce"
        "set_local ofr (?p\<lparr>calls := calls ?p @ [RestartIce, CreateOffer True]\<rparr>)"]
    by (simp add: set_local_def split: sdp_type.splits)
  show "new_ops s (ice_restart lk ofr s) = [DbSet (offer_path lk) (SdpVal ofr)]"
    by (simp add: new_ops_def ice_restart_def)
  show "signalingState (pcs (ice_restart lk ofr s) ! lk_pc lk) \<noteq> SigClosed"
    unfolding p using assms by (simp add: set_local_def split: sdp_type.splits)
qed

lemma ice_restart_db_log:
  "db_log (ice_restart lk ofr s) = db_log s @ [DbSet (offer_path lk) (SdpVal ofr)]"
  by (simp add: ice_restart_def)

lemma failures_restart_each:
  assumes "lk_initiator lk" "lk_pc lk < length (pcs s)"
    "signalingState (pcs s ! lk_pc lk) \<noteq> SigClosed"
  shows "restart_count (failures lk ofrs an s) = restart_count s + length ofrs
       \<and> db_log (failures lk ofrs an s) =
           db_log s @ map (\<lambda>ofr. DbSet (offer_path lk) (SdpVal ofr)) ofrs"
  using assms(2,3)
proof (induction ofrs arbitrary: s)
  case Nil
  show ?case by (simp add: failures_def)
next
  case (Cons ofr ofrs)
  let ?s = "ice_restart lk ofr s"
  have st: "onconnectionstatechange lk CsFailed ofr an s = ?s"
    using assms(1) Cons.prems by (simp add: failed_step)
  note r = ice_restart_result[OF Cons.prems(1), of ofr]
  have l: "lk_pc lk < length (pcs ?s)" using Cons.prems(1) by simp
  from Cons.IH[OF l r(4)]
  have "restart_count (failures lk ofrs an ?s) = restart_count ?s + length ofrs"
    and "db_log (failures lk ofrs an ?s) =
           db_log ?s @ map (\<lambda>ofr. DbSet (offer_path lk) (SdpVal ofr)) ofrs"
    by simp_all
  moreover have "failures lk (ofr # ofrs) an s = failures lk ofrs an ?s"
    by (simp add: failures_def st)
  ultimately show ?case
    by (simp add: r(2) ice_restart_db_log)
qed

lemma sdp_writes_offers [simp]:
  "sdp_writes (map (\<lambda>ofr. DbSet p (SdpVal ofr)) ofrs) = map (\<lambda>ofr. (p, ofr)) ofrs"
  by (induction ofrs) auto

lemma responder_never_restarts:
  assumes "\<not> lk_initiator lk"
  shows "restart_count (onconnectionstatechange lk cs ofr an s) = restart_count s"
    and "sdp_writes (new_ops s (onconnectionstatechange lk cs ofr an s)) = []"
proof -
  have w: "restart_count (watchAudioLevel (lk_peer lk) an s) = restart_count s"
    by (simp add: restart_count_def)
  show "restart_count (onconnectionstatechange lk cs ofr an s) = restart_count s"
    using assms w by (simp add: onconnectionstatechange_def Let_def)
  show "sdp_writes (new_ops s (onconnectionstatechange lk cs ofr an s)) = []"
    using assms by (simp add: onconnectionstatechange_def Let_def new_ops_same)
qed

lemma sample_established_simps:
  "pcs sample_established =
     [\<lparr>signalingState = SigStable, remoteDescription = Some (AnswerT, js ''a1''),
       currentRemoteDescription = Some (AnswerT, js ''a1''),
       calls = [AddTrack (AudioTrack, 0), AddTrack (VideoTrack, 1), CreateOffer False,
                SetLocalDescription (OfferT, js ''o1''),
                SetRemoteDescription (AnswerT, js ''a1'')]\<rparr>]"
  using not_inherited_alice
  by (simp add: sample_established_def onconnectionstatechange_def watchAudioLevel_def
      on_answer_value_def call_and_await_def await_def pc_closed_def resume_def
      flushIceQueue_def flush_next_def flush_end_def obj_assign_def sample_link_simps
      sample_call_more remote_applied_def pc_call_def pc_upd_def)

lemma sample_established_ready:
  "lk_initiator sample_link"
  "lk_pc sample_link < length (pcs sample_established)"
  "signalingState (pcs sample_established ! lk_pc sample_link) \<noteq> SigClosed"
  "restart_count sample_established = 0"
  by (simp_all add: sample_link_simps sample_established_simps restart_count_def)

lemma other_states_ignored:
  "cs \<noteq> CsConnected \<Longrightarrow> cs \<noteq> CsFailed \<Longrightarrow> cs \<noteq> CsClosed
     \<Longrightarrow> onconnectionstatechange lk cs ofr an s = s"
  by (simp add: onconnectionstatechange_def)

text \<open>
  C1 fails at the second failure. The comment in the \<open>failed\<close> branch announces a single
  ICE restart, but the handler keeps no flag and no count. \<open>bob\<close>, initiator of the
  established link to \<open>alice\<close>, gets \<open>failed\<close> and restarts ICE, gets \<open>connecting\<close> and
  \<open>failed\<close> again, and restarts ICE a second time, writing a second offer to the same
  path.
\<close>

theorem second_failure_restarts_again:
  "restart_count sample_established = 0
   \<and> restart_count (onconnectionstatechange sample_link CsFailed (OfferT, js ''r1'') None
         sample_established) = 1
   \<and> restart_count
        (onconnectionstatechange sample_link CsFailed (OfferT, js ''r2'') None
          (onconnectionstatechange sample_link CsConnecting (OfferT, []) None
            (onconnectionstatechange sample_link CsFailed (OfferT, js ''r1'') None
               sample_established))) = 2
   \<and> sdp_writes (new_ops sample_established
        (onconnectionstatechange sample_link CsFailed (OfferT, js ''r2'') None
          (onconnectionstatechange sample_link CsConnecting (OfferT, []) None
            (onconnectionstatechange sample_link CsFailed (OfferT, js ''r1'') None
               sample_established))))
       = [(js ''cs1/calls/general/connections/bob___alice/offer'', (OfferT, js ''r1'')),
          (js ''cs1/calls/general/connections/bob___alice/offer'', (OfferT, js ''r2''))]"
proof -
  let ?f1 = "onconnectionstatechange sample_link CsFailed (OfferT, js ''r1'') None sample_established"
  have c: "onconnectionstatechange sample_link CsConnecting (OfferT, []) None ?f1 = ?f1"
    by (rule other_states_ignored) simp_all
  from failures_restart_each[OF sample_established_ready(1,2,3), of "[(OfferT, js ''r1'')]" None]
  have one: "restart_count ?f1 = 1"
    by (simp add: failures_def sample_established_ready(4))
  from failures_restart_each[OF sample_established_ready(1,2,3),
      of "[(OfferT, js ''r1''), (OfferT, js ''r2'')]" None]
  have two: "restart_count (onconnectionstatechange sample_link CsFailed (OfferT, js ''r2'') None ?f1) = 2"
    and log: "sdp_writes (new_ops sample_established
         (onconnectionstatechange sample_link CsFailed (OfferT, js ''r2'') None ?f1))
       = [(js ''cs1/calls/general/connections/bob___alice/offer'', (OfferT, js ''r1'')),
          (js ''cs1/calls/general/connections/bob___alice/offer'', (OfferT, js ''r2''))]"
    by (simp_all add: failures_def sample_established_ready(4) new_ops_def offer_path_def
        sample_link_simps)
  from sample_established_ready(4) one two log show ?thesis
    unfolding c by blast
qed

section \<open>Presence in the Gun variant\<close>

text \<open>
  C8, as the spec has it, fails: \<open>alice\<close>'s node is listed at 1000 ms and survives the
  rechecks at 30 s, 60 s and 90 s (it is 89 s old at the last). When \<open>bob\<close>'s node arrives
  at 100 s the list is rendered with both names, \<open>alice\<close>'s node being 99 s old.
\<close>

theorem stale_entry_listed_counterexample:
  "g_userList (fold gun_step stale_run gun_initial) = [js ''alice'', js ''bob'']
   \<and> map_of (g_onlineNow (fold gun_step stale_run gun_initial)) (js ''alice'') = Some alice_node
   \<and> p_online alice_node
   \<and> PRESENCE_TTL \<le> 100000 - p_lastSeen alice_node"
  by (simp add: stale_run_def gun_initial_def alice_node_def bob_node_def presence_on_def
      recheck_def recheck_key_def renderOnlineUsers_def obj_assign_def PRESENCE_TTL_def Let_def)

lemma renderOnlineUsers_fields [simp]:
  "g_onlineNow (renderOnlineUsers s) = g_onlineNow s"
  "g_userList (renderOnlineUsers s) = map (\<lambda>(k, d). p_username d) (g_onlineNow s)"
  "g_onlineCount (renderOnlineUsers s) = length (g_onlineNow s)"
  by (simp_all add: renderOnlineUsers_def)

lemma presence_on_onlineNow:
  assumes "p_username d \<noteq> []"
  shows "g_onlineNow (presence_on now (Some d) key s) =
           (if p_online d \<and> now - p_lastSeen d < PRESENCE_TTL
            then obj_assign key d (g_onlineNow s) else AList.delete key (g_onlineNow s))"
    and "g_userList (presence_on now (Some d) key s) =
           map (\<lambda>(k, d). p_username d) (g_onlineNow (presence_on now (Some d) key s))"
  using assms by (simp_all add: presence_on_def Let_def)

lemma delete_as_filter: "AList.delete k m = filter (\<lambda>(k', d). k' \<noteq> k) m"
  by (auto simp: AList.delete_eq intro: filter_cong)

lemma recheck_key_filter:
  assumes "distinct (map fst m)"
  shows "recheck_key now k m = filter (\<lambda>(k', d). k' = k \<longrightarrow> now - p_lastSeen d < PRESENCE_TTL) m"
proof (cases "map_of m k")
  case None
  then have "\<And>k' d. (k', d) \<in> set m \<Longrightarrow> k' \<noteq> k"
    by (metis map_of_eq_None_iff fst_conv image_eqI)
  then have "filter (\<lambda>(k', d). k' = k \<longrightarrow> now - p_lastSeen d < PRESENCE_TTL) m = m"
    by (auto simp: filter_id_conv)
  with None show ?thesis by (simp add: recheck_key_def)
next
  case (Some d)
  have u: "\<And>k' d'. (k', d') \<in> set m \<Longrightarrow> k' = k \<Longrightarrow> d' = d"
    using assms Some by (metis map_of_is_SomeI option.inject)
  show ?thesis
  proof (cases "now - p_lastSeen d \<ge> PRESENCE_TTL")
    case True
    have "filter (\<lambda>(k', d). k' = k \<longrightarrow> now - p_lastSeen d < PRESENCE_TTL) m
            = filter (\<lambda>(k', d). k' \<noteq> k) m"
      using u True by (intro filter_cong) auto
    with Some True show ?thesis by (simp add: recheck_key_def delete_as_filter)
  next
    case False
    have "filter (\<lambda>(k', d). k' = k \<longrightarrow> now - p_lastSeen d < PRESENCE_TTL) m = m"
      using u False by (auto simp: filter_id_conv)
    with Some False show ?thesis by (simp add: recheck_key_def)
  qed
qed

lemma fold_recheck_key_filter:
  assumes "distinct (map fst m)"
  shows "fold (recheck_key now) ks m =
           filter (\<lambda>(k', d). k' \<in> set ks \<longrightarrow> now - p_lastSeen d < PRESENCE_TTL) m"
  using assms
proof (induction ks arbitrary: m)
  case Nil
  show ?case by simp
next
  case (Cons k ks)
  let ?m = "filter (\<lambda>(k', d). k' = k \<longrightarrow> now - p_lastSeen d < PRESENCE_TTL) m"
  have d: "distinct (map fst ?m)"
    using Cons.prems by (simp add: distinct_map_filter)
  have "fold (recheck_key now) (k # ks) m = fold (recheck_key now) ks ?m"
    by (simp add: recheck_key_filter[OF Cons.prems])
  also have "\<dots> = filter (\<lambda>(k', d). k' \<in> set ks \<longrightarrow> now - p_lastSeen d < PRESENCE_TTL) ?m"
    by (rule Cons.IH[OF d])
  also have "\<dots> = filter (\<lambda>(k', d). k' \<in> set (k # ks) \<longrightarrow> now - p_lastSeen d < PRESENCE_TTL) m"
    by (auto intro: filter_cong)
  finally show ?case .
qed

lemma recheck_onlineNow:
  assumes "distinct (map fst (g_onlineNow s))"
  shows "g_onlineNow (recheck now s) =
           filter (\<lambda>(k, d). now - p_lastSeen d < PRESENCE_TTL) (g_onlineNow s)"
proof -
  have "g_onlineNow (recheck now s) =
      filter (\<lambda>(k', d). k' \<in> set (map fst (g_onlineNow s)) \<longrightarrow> now - p_lastSeen d < PRESENCE_TTL)
        (g_onlineNow s)"
    by (simp add: recheck_def fold_recheck_key_filter[OF assms])
  also have "\<dots> = filter (\<lambda>(k, d). now - p_lastSeen d < PRESENCE_TTL) (g_onlineNow s)"
    by (intro filter_cong) force+
  finally show ?thesis .
qed

lemma gun_step_distinct:
  "distinct (map fst (g_onlineNow s)) \<Longrightarrow> distinct (map fst (g_onlineNow (gun_step ev s)))"
proof (cases ev)
  case (PresenceNode now data key)
  assume "distinct (map fst (g_onlineNow s))"
  then show ?thesis
    using PresenceNode
    by (auto simp: presence_on_def Let_def obj_assign_def distinct_update distinct_delete
        split: option.splits)
next
  case (Recheck now)
  assume d: "distinct (map fst (g_onlineNow s))"
  show ?thesis
    using Recheck d by (simp add: recheck_onlineNow[OF d] distinct_map_filter)
qed

lemma gun_run_distinct:
  "distinct (map fst (g_onlineNow s)) \<Longrightarrow> distinct (map fst (g_onlineNow (fold gun_step evs s)))"
  by (induction evs arbitrary: s) (auto simp: gun_step_distinct)

text \<open>
  C8, as the code has it. When a presence node with a user name arrives (under a key other
  than \<open>__proto__\<close>), it is in the online list afterwards if and only if its online flag
  is set and it was last seen less than 90 000 ms before that moment; no other entry
  changes, and the rendered list is the online list. A recheck removes exactly the
  entries last seen 90 000 ms or longer before the recheck, and renders the rest. The keys
  of the online list stay unique. Staleness is tested at these two moments only, and on
  arrival for the arriving entry only: an entry that has turned stale stays listed, and
  is rendered again when another entry's node arrives, until a recheck or its own node
  removes it.
\<close>

theorem presence_listing_at_events:
  "(p_username d \<noteq> [] \<and> key \<noteq> js ''__proto__'' \<longrightarrow>
      map_of (g_onlineNow (presence_on now (Some d) key s)) key =
        (if p_online d \<and> now - p_lastSeen d < PRESENCE_TTL then Some d else None)
    \<and> (\<forall>k. k \<noteq> key \<longrightarrow>
          map_of (g_onlineNow (presence_on now (Some d) key s)) k = map_of (g_onlineNow s) k)
    \<and> g_userList (presence_on now (Some d) key s) =
        map (\<lambda>(k, d). p_username d) (g_onlineNow (presence_on now (Some d) key s)))
   \<and> (distinct (map fst (g_onlineNow s)) \<longrightarrow>
      g_onlineNow (recheck now s) =
        filter (\<lambda>(k, d). now - p_lastSeen d < PRESENCE_TTL) (g_onlineNow s)
    \<and> g_userList (recheck now s) = map (\<lambda>(k, d). p_username d) (g_onlineNow (recheck now s)))
   \<and> distinct (map fst (g_onlineNow (fold gun_step evs gun_initial)))"
proof -
  have a: "map_of (g_onlineNow (presence_on now (Some d) key s)) key =
        (if p_online d \<and> now - p_lastSeen d < PRESENCE_TTL then Some d else None)
    \<and> (\<forall>k. k \<noteq> key \<longrightarrow>
          map_of (g_onlineNow (presence_on now (Some d) key s)) k = map_of (g_onlineNow s) k)
    \<and> g_userList (presence_on now (Some d) key s) =
        map (\<lambda>(k, d). p_username d) (g_onlineNow (presence_on now (Some d) key s))"
    if h: "p_username d \<noteq> []" "key \<noteq> js ''__proto__''"
    using h(2) presence_on_onlineNow(2)[OF h(1), of now key s]
    by (simp add: presence_on_onlineNow(1)[OF h(1)] obj_assign_def update_conv' delete_conv')
  have b: "g_onlineNow (recheck now s) =
        filter (\<lambda>(k, d). now - p_lastSeen d < PRESENCE_TTL) (g_onlineNow s)
    \<and> g_userList (recheck now s) = map (\<lambda>(k, d). p_username d) (g_onlineNow (recheck now s))"
    if h: "distinct (map fst (g_onlineNow s))"
    using recheck_onlineNow[OF h, of now] by (simp add: recheck_def)
  have c: "distinct (map fst (g_onlineNow (fold gun_step evs gun_initial)))"
    by (rule gun_run_distinct) (simp add: gun_initial_def)
  from a b c show ?thesis by blast
qed

theorem presence_listing_at_events_witness:
  "map_of (g_onlineNow (presence_on 1000 (Some alice_node) (js ''alice'') gun_initial)) (js ''alice'')
     = Some alice_node
   \<and> g_userList (presence_on 1000 (Some alice_node) (js ''alice'') gun_initial) = [js ''alice'']
   \<and> map_of (g_onlineNow (presence_on 100000 (Some alice_node) (js ''alice'') gun_initial))
       (js ''alice'') = None
   \<and> g_onlineNow (recheck 90000 (presence_on 1000 (Some alice_node) (js ''alice'') gun_initial))
       = [(js ''alice'', alice_node)]
   \<and> g_onlineNow (recheck 120000 (presence_on 1000 (Some alice_node) (js ''alice'') gun_initial))
       = []
   \<and> g_userList (recheck 120000 (presence_on 1000 (Some alice_node) (js ''alice'') gun_initial))
       = []"
proof -
  have h1: "p_username alice_node \<noteq> [] \<and> js ''alice'' \<noteq> js ''__proto__''"
    by (simp add: alice_node_def)
  have on: "g_onlineNow (presence_on 1000 (Some alice_node) (js ''alice'') gun_initial)
              = [(js ''alice'', alice_node)]"
    by (simp add: presence_on_def alice_node_def gun_initial_def obj_assign_def PRESENCE_TTL_def)
  have h2: "distinct (map fst (g_onlineNow (presence_on 1000 (Some alice_node) (js ''alice'')
              gun_initial)))"
    using on by simp
  from presence_listing_at_events[of alice_node "js ''alice''" 1000 gun_initial] h1 on
  have a: "map_of (g_onlineNow (presence_on 1000 (Some alice_node) (js ''alice'') gun_initial))
             (js ''alice'') = Some alice_node
     \<and> g_userList (presence_on 1000 (Some alice_node) (js ''alice'') gun_initial) = [js ''alice'']"
    by (simp add: alice_node_def PRESENCE_TTL_def)
  from presence_listing_at_events[of alice_node "js ''alice''" 100000 gun_initial] h1
  have b: "map_of (g_onlineNow (presence_on 100000 (Some alice_node) (js ''alice'') gun_initial))
       (js ''alice'') = None"
    by (simp add: alice_node_def PRESENCE_TTL_def)
  from presence_listing_at_events[of _ _ 90000
      "presence_on 1000 (Some alice_node) (js ''alice'') gun_initial"] h2 on
  have c: "g_onlineNow (recheck 90000 (presence_on 1000 (Some alice_node) (js ''alice'') gun_initial))
       = [(js ''alice'', alice_node)]"
    by (simp add: alice_node_def PRESENCE_TTL_def)
  from presence_listing_at_events[of _ _ 120000
      "presence_on 1000 (Some alice_node) (js ''alice'') gun_initial"] h2 on
  have d: "g_onlineNow (recheck 120000 (presence_on 1000 (Some alice_node) (js ''alice'') gun_initial))
       = []
   \<and> g_userList (recheck 120000 (presence_on 1000 (Some alice_node) (js ''alice'') gun_initial))
       = []"
    by (simp add: alice_node_def PRESENCE_TTL_def)
  from a b c d show ?thesis by blast
qed

section \<open>Login\<close>

lemma fb_tail_fields [simp]:
  "f_users (fb_startPresence old s) = f_users s"
  "f_username (fb_startPresence old s) = f_username s"
  "f_users (loadCustomRooms s) = f_users s"
  "f_username (loadCustomRooms s) = f_username s"
  "f_users (fb_joinRoom r s) = f_users s"
  "f_username (fb_joinRoom r s) = f_username s"
  by (simp_all add: fb_startPresence_def loadCustomRooms_def fb_joinRoom_def)

lemma enter_chat_username [simp]: "f_username (enter_chat name s) = name"
  by (simp add: enter_chat_def Let_def)


lemma sanitize_samples:
  "sanitize (js ''bob'') = js ''bob''"
  "sanitize (js ''  bo<b>!  '') = js ''bob''"
  "sanitize (js '' <> '') = []"
  "trim (js ''wrong'') = js ''wrong''"
  "trim (js '' s3cret '') = js ''s3cret''"
  by (simp_all add: sanitize_def trim_def is_ws_def name_char_def)


section \<open>User names\<close>

lemma sanitize_length: "length (sanitize raw) \<le> 24"
  by (simp add: sanitize_def)

lemma sanitize_chars: "list_all name_char (sanitize raw)"
  unfolding sanitize_def list_all_iff
  by (auto dest: in_set_takeD)

lemma sanitize_valid: "sanitize raw \<noteq> [] \<Longrightarrow> valid_name (sanitize raw)"
  by (simp add: valid_name_def sanitize_length sanitize_chars)

lemma sanitize_Nil [simp]: "sanitize [] = []"
  by (simp add: sanitize_def trim_def)

lemma gun_startPresence_username [simp]: "g_username (gun_startPresence now s) = g_username s"
  by (simp add: gun_startPresence_def)

lemma gun_joinRoom_username [simp]: "g_username (gun_joinRoom r s) = g_username s"
  by (simp add: gun_joinRoom_def)

lemma gun_doLogin_name:
  "gun_doLogin now raw g =
     (if sanitize raw = [] then g\<lparr>g_shakes := g_shakes g + 1\<rparr> else gun_doLogin now raw g)"
  "sanitize raw \<noteq> [] \<Longrightarrow> g_username (gun_doLogin now raw g) = sanitize raw"
  by (simp_all add: gun_doLogin_def Let_def split: list.splits)

lemma gun_rename_name:
  "gun_rename now None g = g"
  "sanitize raw = [] \<Longrightarrow> gun_rename now (Some raw) g = g"
  "sanitize raw \<noteq> [] \<Longrightarrow> g_gunReady g \<Longrightarrow> g_username (gun_rename now (Some raw) g) = sanitize raw"
  "sanitize raw \<noteq> [] \<Longrightarrow> \<not> g_gunReady g
     \<Longrightarrow> gun_rename now (Some raw) g = g\<lparr>g_uncaught := g_uncaught g @ [TypeError]\<rparr>"
  by (auto simp: gun_rename_def Let_def)

lemma fb_doLogin_name:
  "sanitize raw = [] \<Longrightarrow> fb_doLogin hashKey env raw rawKey f =
      f\<lparr>f_status := Some (EnterUsername, StatusError), f_focus := Some UsernameInput\<rparr>"
  "f_username (fb_doLogin hashKey env raw rawKey f) =
     (if sanitize raw \<noteq> [] \<and> trim rawKey \<noteq> [] \<and> init_error env = None \<and> io_error env = None
         \<and> (case map_of (f_users f) (sanitize raw) of
               None \<Rightarrow> True | Some u \<Rightarrow> u_keyHash u = hashKey (trim rawKey))
      then sanitize raw else f_username f)"
  by (simp_all add: fb_doLogin_def Let_def initFirebase_def split: option.splits)

lemma fb_rename_name:
  "fb_rename hashKey env None key f = f"
  "sanitize raw = [] \<Longrightarrow> fb_rename hashKey env (Some raw) key f = f"
  by (cases raw; simp add: fb_rename_def Let_def split: option.splits)+

lemma fb_rename_accepts:
  assumes "sanitize raw \<noteq> []"
  shows "f_username (fb_rename hashKey env (Some raw) key f) =
     (if truthy key \<and> \<not> hash_throws env \<and> f_dbReady f
         \<and> (case map_of (f_users f) (sanitize raw) of
               None \<Rightarrow> True | Some u \<Rightarrow> u_keyHash u = hashKey (trim (template_str key)))
      then sanitize raw else f_username f)"
proof -
  from assms have r: "raw \<noteq> []" by auto
  then have tr: "truthy (Some raw)" by (cases raw) simp_all
  show ?thesis
    using assms tr
    by (simp add: fb_rename_def Let_def split: option.splits)
qed

lemma fb_rename_throws:
  assumes "sanitize raw \<noteq> []" "sanitize raw \<noteq> f_username f" "truthy key" "\<not> hash_throws env"
    "\<not> f_dbReady f"
  shows "fb_rename hashKey env (Some raw) key f = f\<lparr>f_uncaught := f_uncaught f @ [TypeError]\<rparr>"
proof -
  from assms(1) have r: "raw \<noteq> []" by auto
  then have tr: "truthy (Some raw)" by (cases raw) simp_all
  show ?thesis
    using assms tr by (simp add: fb_rename_def Let_def)
qed

text \<open>
  C10. The sanitized form of any input has at most 24 characters, all of them word
  characters, hyphens, dots or spaces. An input that sanitizes to the empty string is
  rejected by login and by renaming, in both variants (the Gun login shakes the input, the
  Firebase login asks for a user name, renaming does nothing), and the session's user
  name stays as it was; a cancelled prompt does the same. For any other input the
  sanitized form is a valid name, and the session's user name afterwards is that name
  when the handler accepts and the old name when it does not. The Gun login always
  accepts; the Gun renaming accepts once \<open>gun\<close> is set, and before that it throws with
  nothing changed. The Firebase login accepts when the key is not empty, the platform
  calls succeed and the account directory has no record under the name or one with the
  hash of the key; the Firebase renaming accepts under the same condition on the record
  when the key prompt is answered, hashing succeeds and \<open>firestoreDb\<close> is set; when
  \<open>firestoreDb\<close> is not set and the name differs from the current one, it throws with
  nothing changed.
\<close>

theorem accepted_names_sanitized:
  "length (sanitize raw) \<le> 24 \<and> list_all name_char (sanitize raw)
   \<and> (if sanitize raw = []
       then gun_doLogin now raw g = g\<lparr>g_shakes := g_shakes g + 1\<rparr>
          \<and> gun_rename now (Some raw) g = g
          \<and> fb_doLogin hashKey env raw rawKey f =
              f\<lparr>f_status := Some (EnterUsername, StatusError), f_focus := Some UsernameInput\<rparr>
          \<and> fb_rename hashKey env (Some raw) key f = f
       else valid_name (sanitize raw)
          \<and> g_username (gun_doLogin now raw g) = sanitize raw
          \<and> (if g_gunReady g then g_username (gun_rename now (Some raw) g) = sanitize raw
              else gun_rename now (Some raw) g = g\<lparr>g_uncaught := g_uncaught g @ [TypeError]\<rparr>)
          \<and> f_username (fb_doLogin hashKey env raw rawKey f) =
              (if trim rawKey \<noteq> [] \<and> init_error env = None \<and> io_error env = None
                  \<and> (case map_of (f_users f) (sanitize raw) of
                        None \<Rightarrow> True | Some u \<Rightarrow> u_keyHash u = hashKey (trim rawKey))
               then sanitize raw else f_username f)
          \<and> f_username (fb_rename hashKey env (Some raw) key f) =
              (if truthy key \<and> \<not> hash_throws env \<and> f_dbReady f
                  \<and> (case map_of (f_users f) (sanitize raw) of
                        None \<Rightarrow> True
                      | Some u \<Rightarrow> u_keyHash u = hashKey (trim (template_str key)))
               then sanitize raw else f_username f)
          \<and> (sanitize raw \<noteq> f_username f \<and> truthy key \<and> \<not> hash_throws env \<and> \<not> f_dbReady f \<longrightarrow>
                fb_rename hashKey env (Some raw) key f =
                  f\<lparr>f_uncaught := f_uncaught f @ [TypeError]\<rparr>))
   \<and> gun_rename now None g = g
   \<and> fb_rename hashKey env None key f = f"
proof (cases "sanitize raw = []")
  case True
  have "gun_doLogin now raw g = g\<lparr>g_shakes := g_shakes g + 1\<rparr>"
    using True gun_doLogin_name(1)[of now raw g] by simp
  with True show ?thesis
    using fb_doLogin_name(1)[OF True] fb_rename_name(1,2) gun_rename_name(1,2)
    by simp
next
  case False
  have g: "if g_gunReady g then g_username (gun_rename now (Some raw) g) = sanitize raw
           else gun_rename now (Some raw) g = g\<lparr>g_uncaught := g_uncaught g @ [TypeError]\<rparr>"
    using gun_rename_name(3,4)[OF False] by simp
  have t: "sanitize raw \<noteq> f_username f \<and> truthy key \<and> \<not> hash_throws env \<and> \<not> f_dbReady f \<longrightarrow>
             fb_rename hashKey env (Some raw) key f = f\<lparr>f_uncaught := f_uncaught f @ [TypeError]\<rparr>"
    using fb_rename_throws[OF False] by blast
  have l: "f_username (fb_doLogin hashKey env raw rawKey f) =
              (if trim rawKey \<noteq> [] \<and> init_error env = None \<and> io_error env = None
                  \<and> (case map_of (f_users f) (sanitize raw) of
                        None \<Rightarrow> True | Some u \<Rightarrow> u_keyHash u = hashKey (trim rawKey))
               then sanitize raw else f_username f)"
    using False by (simp add: fb_doLogin_name(2))
  note r = fb_rename_accepts[OF False, of hashKey env key f]
  have rest: "length (sanitize raw) \<le> 24 \<and> list_all name_char (sanitize raw)
      \<and> valid_name (sanitize raw) \<and> g_username (gun_doLogin now raw g) = sanitize raw
      \<and> gun_rename now None g = g \<and> fb_rename hashKey env None key f = f"
    using sanitize_valid[OF False] gun_doLogin_name(2)[OF False] fb_rename_name(1)
      gun_rename_name(1) sanitize_length sanitize_chars by simp
  from False rest g l r t show ?thesis
    by (simp only: if_False simp_thms)
qed



lemma name_samples:
  "sanitize (js ''carol'') = js ''carol''"
  "trim (js ''k2'') = js ''k2''"
  "trim (js ''k'') = js ''k''"
  by (simp_all add: sanitize_def trim_def is_ws_def name_char_def)

lemma gun_bob_simps:
  "g_username gun_bob = js ''bob''"
  "g_gunReady gun_bob"
  using sanitize_samples(1)
  by (simp_all add: gun_bob_def gun_doLogin_def Let_def gun_initial_def DEFAULT_ROOMS_def
      gun_startPresence_def gun_joinRoom_def)

lemma fb_sample_simps:
  "f_username fb_sample = []"
  "\<not> f_dbReady fb_sample"
  "f_uncaught fb_sample = []"
  "map_of (f_users fb_sample) (js ''bob'') = Some (new_user (js ''bob'') (sample_hash (js ''s3cret'')) 5)"
  by (simp_all add: fb_sample_def fb_initial_def)

lemma fb_bob_simps:
  "f_username fb_bob = js ''bob''"
  "f_dbReady fb_bob"
  "map_of (f_users fb_bob) (js ''carol'') = None"
  using sanitize_samples(1,5)
  by (simp_all add: fb_bob_def fb_doLogin_def Let_def initFirebase_def fine_def fb_sample_def
      fb_initial_def new_user_def sample_hash_def enter_chat_def fb_startPresence_def
      loadCustomRooms_def fb_joinRoom_def update_conv')

theorem accepted_names_sanitized_witness:
  "sanitize (js ''  bo<b>!  '') = js ''bob'' \<and> valid_name (js ''bob'')
   \<and> g_username (gun_doLogin 1 (js ''  bo<b>!  '') gun_initial) = js ''bob''
   \<and> gun_rename 1 (Some (js ''  bo<b>!  '')) gun_initial
        = gun_initial\<lparr>g_uncaught := g_uncaught gun_initial @ [TypeError]\<rparr>
   \<and> f_username (fb_doLogin sample_hash fine (js ''  bo<b>!  '') (js '' s3cret '') fb_sample)
        = js ''bob''
   \<and> fb_rename sample_hash fine (Some (js ''  bo<b>!  '')) (Some (js ''k'')) fb_sample
        = fb_sample\<lparr>f_uncaught := f_uncaught fb_sample @ [TypeError]\<rparr>
   \<and> sanitize (js ''carol'') = js ''carol'' \<and> valid_name (js ''carol'')
   \<and> g_username gun_bob = js ''bob''
   \<and> g_username (gun_rename 2 (Some (js ''carol'')) gun_bob) = js ''carol''
   \<and> f_username fb_bob = js ''bob''
   \<and> f_username (fb_rename sample_hash fine (Some (js ''carol'')) (Some (js ''k2'')) fb_bob)
        = js ''carol''
   \<and> f_username (fb_rename sample_hash fine (Some (js ''carol'')) None fb_bob) = js ''bob''
   \<and> sanitize (js '' <> '') = []
   \<and> gun_doLogin 2 (js '' <> '') gun_bob = gun_bob\<lparr>g_shakes := g_shakes gun_bob + 1\<rparr>
   \<and> gun_rename 2 (Some (js '' <> '')) gun_bob = gun_bob
   \<and> fb_doLogin sample_hash fine (js '' <> '') (js ''s3cret'') fb_bob =
        fb_bob\<lparr>f_status := Some (EnterUsername, StatusError), f_focus := Some UsernameInput\<rparr>
   \<and> fb_rename sample_hash fine (Some (js '' <> '')) (Some (js ''s3cret'')) fb_bob = fb_bob"
proof -
  have g0: "\<not> g_gunReady gun_initial"
    by (simp add: gun_initial_def)
  have k: "truthy (Some (js ''k''))" "truthy (Some (js ''k2''))" "\<not> truthy None"
    "\<not> hash_throws fine" "init_error fine = None" "io_error fine = None"
    by (simp_all add: fine_def)
  have h: "u_keyHash (new_user (js ''bob'') (sample_hash (js ''s3cret'')) 5)
             = sample_hash (js ''s3cret'')"
    by (simp add: new_user_def)
  from accepted_names_sanitized[of "js ''  bo<b>!  ''" 1 gun_initial sample_hash fine
      "js '' s3cret ''" fb_sample "Some (js ''k'')"]
    sanitize_samples(2,5) g0 k h fb_sample_simps
  have a: "valid_name (js ''bob'')
   \<and> g_username (gun_doLogin 1 (js ''  bo<b>!  '') gun_initial) = js ''bob''
   \<and> gun_rename 1 (Some (js ''  bo<b>!  '')) gun_initial
        = gun_initial\<lparr>g_uncaught := g_uncaught gun_initial @ [TypeError]\<rparr>
   \<and> f_username (fb_doLogin sample_hash fine (js ''  bo<b>!  '') (js '' s3cret '') fb_sample)
        = js ''bob''
   \<and> fb_rename sample_hash fine (Some (js ''  bo<b>!  '')) (Some (js ''k'')) fb_sample
        = fb_sample\<lparr>f_uncaught := f_uncaught fb_sample @ [TypeError]\<rparr>"
    by simp
  from accepted_names_sanitized[of "js ''carol''" 2 gun_bob sample_hash fine
      "js ''s3cret''" fb_bob "Some (js ''k2'')"]
    name_samples gun_bob_simps fb_bob_simps k
  have b: "valid_name (js ''carol'')
   \<and> g_username (gun_rename 2 (Some (js ''carol'')) gun_bob) = js ''carol''
   \<and> f_username (fb_rename sample_hash fine (Some (js ''carol'')) (Some (js ''k2'')) fb_bob)
        = js ''carol''"
    by simp
  from accepted_names_sanitized[of "js ''carol''" 2 gun_bob sample_hash fine
      "js ''s3cret''" fb_bob None]
    name_samples fb_bob_simps k
  have c: "f_username (fb_rename sample_hash fine (Some (js ''carol'')) None fb_bob) = js ''bob''"
    by simp
  from accepted_names_sanitized[of "js '' <> ''" 2 gun_bob sample_hash fine "js ''s3cret''"
      fb_bob "Some (js ''s3cret'')"] sanitize_samples(3)
  have d: "gun_doLogin 2 (js '' <> '') gun_bob = gun_bob\<lparr>g_shakes := g_shakes gun_bob + 1\<rparr>
   \<and> gun_rename 2 (Some (js '' <> '')) gun_bob = gun_bob
   \<and> fb_doLogin sample_hash fine (js '' <> '') (js ''s3cret'') fb_bob =
        fb_bob\<lparr>f_status := Some (EnterUsername, StatusError), f_focus := Some UsernameInput\<rparr>
   \<and> fb_rename sample_hash fine (Some (js '' <> '')) (Some (js ''s3cret'')) fb_bob = fb_bob"
    by simp
  from a b c d sanitize_samples(2,3) name_samples(1) gun_bob_simps(1) fb_bob_simps(1)
  show ?thesis by blast
qed

end
